theory Spec2Isabelle
  imports Main "HOL-Library.Sublist" "HOL-Library.AList" "HOL-Library.Word"
begin

unbundle bit_operations_syntax

section \<open>Strings: the pieces of Go's \<open>strings\<close> package used by templater\<close>

text \<open>
  Go strings are byte sequences; they are modelled as \<^typ>\<open>string\<close> (a list of 8-bit
  characters), so \<^const>\<open>length\<close> is Go's \<open>len\<close>.
\<close>

definition HasPrefix :: "string \<Rightarrow> string \<Rightarrow> bool" where
  "HasPrefix s p = prefix p s"

text \<open>\<open>strings.Contains(s, substr)\<close>.\<close>

fun Contains :: "string \<Rightarrow> string \<Rightarrow> bool" where
  "Contains [] sub = (sub = [])"
| "Contains (c # cs) sub = (prefix sub (c # cs) \<or> Contains cs sub)"

text \<open>
  \<open>strings.Replace(s, old, new, 1)\<close>: the leftmost occurrence of \<open>old\<close> is replaced by
  \<open>new\<close>; an empty \<open>old\<close> matches at the beginning of the string.
\<close>

fun Replace1 :: "string \<Rightarrow> string \<Rightarrow> string \<Rightarrow> string" where
  "Replace1 [] old new = (if old = [] then new else [])"
| "Replace1 (c # cs) old new =
     (if prefix old (c # cs) then new @ drop (length old) (c # cs)
      else c # Replace1 cs old new)"

definition extension :: string where
  "extension = ''tmpl''"

definition stripTempl :: "string \<Rightarrow> string" where
  "stripTempl base = Replace1 base (''.'' @ extension) ''''"

section \<open>The scanner's file-name pattern\<close>

text \<open>
  \<open>templRegEx = regexp.MustCompile("^.*(\\.tmpl)(\\.|$)")\<close>. The pattern is kept as a
  syntax tree and run by a small matcher with Go's meaning of the operators it uses:
  \<open>^\<close> and \<open>$\<close> are the beginning and the end of the text (no multi-line flag),
  \<open>.\<close> is any character except newline (no \<open>s\<close> flag), and groups only capture.
  A position is the number of bytes consumed so far with the text that remains; \<open>run\<close>
  lists the positions a pattern can reach from a position. Go matches runes; since no byte
  of a multi-byte UTF-8 sequence is \<open>0x0A\<close> and an invalid byte is read as one rune,
  \<open>.*\<close> spans exactly the byte strings without newline, so bytes are used here.
\<close>

datatype regex = EmptyRe | BeginText | EndText | AnyCharNotNL | Lit char
  | Star regex | Cat regex regex | Alt regex regex

type_synonym pos = "nat \<times> string"

text \<open>At most \<open>k\<close> repetitions; repetitions that consume nothing add nothing, so
  the length of the remaining text is enough.\<close>

fun star_run :: "(pos \<Rightarrow> pos list) \<Rightarrow> nat \<Rightarrow> pos \<Rightarrow> pos list" where
  "star_run f 0 st = [st]"
| "star_run f (Suc k) st = st # concat (map (star_run f k) (f st))"

primrec run :: "regex \<Rightarrow> pos \<Rightarrow> pos list" where
  "run EmptyRe = (\<lambda>st. [st])"
| "run BeginText = (\<lambda>st. if fst st = 0 then [st] else [])"
| "run EndText = (\<lambda>st. if snd st = [] then [st] else [])"
| "run AnyCharNotNL = (\<lambda>st. case snd st of [] \<Rightarrow> []
      | c # cs \<Rightarrow> if c = CHR 0x0A then [] else [(Suc (fst st), cs)])"
| "run (Lit a) = (\<lambda>st. case snd st of [] \<Rightarrow> []
      | c # cs \<Rightarrow> if c = a then [(Suc (fst st), cs)] else [])"
| "run (Star r) = (\<lambda>st. star_run (run r) (length (snd st)) st)"
| "run (Cat r1 r2) = (\<lambda>st. concat (map (run r2) (run r1 st)))"
| "run (Alt r1 r2) = (\<lambda>st. run r1 st @ run r2 st)"

primrec Str :: "string \<Rightarrow> regex" where
  "Str [] = EmptyRe"
| "Str (c # cs) = Cat (Lit c) (Str cs)"

text \<open>\<open>MatchString\<close> is unanchored: the pattern may start at any offset.\<close>

definition MatchString :: "regex \<Rightarrow> string \<Rightarrow> bool" where
  "MatchString re s = list_ex (\<lambda>i. run re (i, drop i s) \<noteq> []) [0..<Suc (length s)]"

definition templRegEx :: regex where
  "templRegEx = Cat BeginText (Cat (Star AnyCharNotNL)
     (Cat (Cat (Lit CHR ''.'') (Str extension)) (Alt (Lit CHR ''.'') EndText)))"

text \<open>
  The wording of the specification, for comparison: the name contains \<open>.tmpl\<close> ending at a
  segment boundary (at the end of the name, or followed by a dot).
\<close>

fun spec_suffixPattern :: "string \<Rightarrow> bool" where
  "spec_suffixPattern [] = False"
| "spec_suffixPattern (c # cs) =
     (c # cs = ''.tmpl'' \<or> prefix ''.tmpl.'' (c # cs) \<or> spec_suffixPattern cs)"

section \<open>Paths: the pieces of Go's \<open>path\<close> and \<open>path/filepath\<close> packages used\<close>

text \<open>
  The program runs on slash-separated paths (\<open>path.Clean\<close>, \<open>path.Dir\<close>, \<open>path.Base\<close>,
  \<open>path.Join\<close>, \<open>path.IsAbs\<close> and, for a Unix build, \<open>filepath.Abs\<close>).
\<close>

text \<open>The path elements between the slashes, empty ones included.\<close>

fun elems :: "string \<Rightarrow> string list" where
  "elems [] = [[]]"
| "elems (c # cs) =
     (if c = CHR ''/'' then [] # elems cs
      else (case elems cs of [] \<Rightarrow> [[c]] | e # es \<Rightarrow> (c # e) # es))"

fun joinSlash :: "string list \<Rightarrow> string" where
  "joinSlash [] = []"
| "joinSlash [e] = e"
| "joinSlash (e # e' # es) = e @ ''/'' @ joinSlash (e' # es)"

text \<open>
  One element of \<open>path.Clean\<close>'s loop. \<open>out\<close> is the output written so far, as a stack of
  elements (last one first). An empty element and \<open>.\<close> are dropped; \<open>..\<close> removes the last
  element when there is one to backtrack over, is kept at the start of a path that is not
  rooted, and is dropped at the root; any other element is appended.
\<close>

definition cleanStep :: "bool \<Rightarrow> string list \<Rightarrow> string \<Rightarrow> string list" where
  "cleanStep rooted out e =
     (if e = [] \<or> e = ''.'' then out
      else if e = ''..'' then
        (case out of
           [] \<Rightarrow> if rooted then [] else [''..'']
         | t # ts \<Rightarrow> if t = ''..'' then (if rooted then out else ''..'' # out) else ts)
      else e # out)"

definition Clean :: "string \<Rightarrow> string" where
  "Clean p =
     (if p = [] then ''.''
      else let rooted = (hd p = CHR ''/'');
               out = foldl (cleanStep rooted) [] (elems p)
           in if rooted then ''/'' @ joinSlash (rev out)
              else if out = [] then ''.'' else joinSlash (rev out))"

definition IsAbs :: "string \<Rightarrow> bool" where
  "IsAbs p = (case p of [] \<Rightarrow> False | c # _ \<Rightarrow> c = CHR ''/'')"

text \<open>\<open>path.Split\<close> cuts after the final slash; \<open>path.Dir\<close> cleans the first part.\<close>

definition Split :: "string \<Rightarrow> string \<times> string" where
  "Split p = (rev (dropWhile (\<lambda>c. c \<noteq> CHR ''/'') (rev p)),
              rev (takeWhile (\<lambda>c. c \<noteq> CHR ''/'') (rev p)))"

definition Dir :: "string \<Rightarrow> string" where
  "Dir p = Clean (fst (Split p))"

definition Base :: "string \<Rightarrow> string" where
  "Base p =
     (if p = [] then ''.''
      else let q = rev (dropWhile (\<lambda>c. c = CHR ''/'') (rev p));
               b = rev (takeWhile (\<lambda>c. c \<noteq> CHR ''/'') (rev q))
           in if b = [] then ''/'' else b)"

text \<open>\<open>path.Join\<close> of two elements: empty elements are ignored and the result is cleaned.\<close>

definition Join :: "string \<Rightarrow> string \<Rightarrow> string" where
  "Join a b =
     (if a = [] \<and> b = [] then []
      else if a = [] then Clean b
      else Clean (a @ ''/'' @ b))"

text \<open>
  \<open>filepath.Abs\<close>: an absolute path is cleaned, any other path is joined to the working
  directory. \<open>cwd\<close> is the result of \<open>os.Getwd\<close>, \<open>None\<close> when it fails. In particular
  \<open>Abs\<close> of the empty string is the working directory.
\<close>

definition Abs :: "string option \<Rightarrow> string \<Rightarrow> string option" where
  "Abs cwd p =
     (if IsAbs p then Some (Clean p)
      else (case cwd of None \<Rightarrow> None | Some wd \<Rightarrow> Some (Join wd p)))"

text \<open>An ordinary path element: not empty, not \<open>.\<close> or \<open>..\<close>, without a slash.\<close>

definition normalElem :: "string \<Rightarrow> bool" where
  "normalElem e = (e \<noteq> [] \<and> e \<noteq> ''.'' \<and> e \<noteq> ''..'' \<and> CHR ''/'' \<notin> set e)"

section \<open>Flags and the path mapping\<close>

text \<open>The command-line flags (\<open>type Flags struct\<close>); \<open>in\<close> is spelled \<open>inp\<close> here.\<close>

record Flags =
  scan :: bool
  porcelain :: bool
  dryRun :: bool
  interactive :: bool
  readOnly :: bool
  out :: string
  inp :: string
  origParent :: string
  newParent :: string
  hostOverride :: string
  userOverride :: string

text \<open>
  \<open>log.Fatalf\<close> ends the process with exit status 1 and \<open>panic\<close> ends it with a stack
  trace: a run that aborts returns \<open>Inl\<close> of the reason.
\<close>

datatype abort =
    FatalAbs string            \<comment> \<open>\<open>Error for %s: %s\<close>, from a failed \<open>filepath.Abs\<close>\<close>
  | FatalNotUnder string string  \<comment> \<open>\<open>Fatal: %s is not under %s\<close>\<close>
  | PanicNotAbsolute string    \<comment> \<open>\<open>panic(scannedPath + " is not absolute")\<close>\<close>
  | PanicOutputPathRequired    \<comment> \<open>\<open>panic("outputPath required")\<close>\<close>
  | PanicScanning              \<comment> \<open>\<open>panic("Don't call this if we are scanning")\<close>\<close>
  | PanicNilFileInfo           \<comment> \<open>nil pointer dereference in \<open>info.IsDir()\<close>\<close>

definition shouldScan :: "Flags \<Rightarrow> bool" where
  "shouldScan f = (scan f \<and> inp f = [] \<and> out f = [])"

definition shouldDryRun :: "Flags \<Rightarrow> bool" where
  "shouldDryRun f = dryRun f"

definition isStdin :: "Flags \<Rightarrow> bool" where
  "isStdin f = (inp f = [] \<and> \<not> scan f)"

definition shouldPromptBeforeWrite :: "Flags \<Rightarrow> bool" where
  "shouldPromptBeforeWrite f = (interactive f \<and> \<not> isStdin f)"

definition newParentAbs :: "string option \<Rightarrow> Flags \<Rightarrow> abort + string" where
  "newParentAbs cwd f =
     (case Abs cwd (newParent f) of None \<Rightarrow> Inl (FatalAbs (newParent f)) | Some a \<Rightarrow> Inr a)"

definition origParentAbs :: "string option \<Rightarrow> Flags \<Rightarrow> abort + string" where
  "origParentAbs cwd f =
     (case Abs cwd (origParent f) of None \<Rightarrow> Inl (FatalAbs (origParent f)) | Some a \<Rightarrow> Inr a)"

text \<open>
  Lines 262 to 278 of \<open>convertOutputPath\<close>: the value of its local variable \<open>outputDir\<close>,
  from the two absolute prefixes and the input directory.
\<close>

definition convertDir :: "string \<Rightarrow> string \<Rightarrow> string \<Rightarrow> abort + string" where
  "convertDir origP newP inputDir =
     (let canConvertDir = (origP \<noteq> [] \<and> newP \<noteq> [])
      in if canConvertDir \<and> \<not> HasPrefix inputDir origP
         then Inl (FatalNotUnder inputDir origP)
         else if canConvertDir then
           (if length origP = length inputDir then Inr newP
            else Inr (newP @ drop (length origP) inputDir))
         else Inr inputDir)"

text \<open>
  \<open>convertOutputPath\<close> up to line 278: the input directory, the input base name and the
  output directory. \<open>None\<close> is the early \<open>return ""\<close> (nothing scanned and no \<open>-in\<close>).
\<close>

definition convertParts :: "string option \<Rightarrow> Flags \<Rightarrow> string \<Rightarrow>
    abort + (string \<times> string \<times> string) option" where
  "convertParts cwd f scannedPath =
     (if scannedPath = [] \<and> inp f = [] then Inr None
      else
        (case (if scannedPath = [] then Abs cwd (inp f) else Some scannedPath) of
           None \<Rightarrow> Inl (FatalAbs (inp f))
         | Some sp \<Rightarrow>
            (case origParentAbs cwd f of
               Inl e \<Rightarrow> Inl e
             | Inr origP \<Rightarrow>
                (case newParentAbs cwd f of
                   Inl e \<Rightarrow> Inl e
                 | Inr newP \<Rightarrow>
                    (let sp' = Clean sp; inputDir = Dir sp'; inputBase = Base sp'
                     in case convertDir origP newP inputDir of
                          Inl e \<Rightarrow> Inl e
                        | Inr outputDir \<Rightarrow> Inr (Some (inputDir, inputBase, outputDir)))))))"

definition convertOutputPath :: "string option \<Rightarrow> Flags \<Rightarrow> string \<Rightarrow> abort + string" where
  "convertOutputPath cwd f scannedPath =
     (case convertParts cwd f scannedPath of
        Inl e \<Rightarrow> Inl e
      | Inr None \<Rightarrow> Inr []
      | Inr (Some (inputDir, inputBase, outputDir)) \<Rightarrow>
          Inr (Join outputDir (stripTempl inputBase)))"

text \<open>The output directory the mapping computes (the local variable \<open>outputDir\<close>).\<close>

definition outputDirOf :: "string option \<Rightarrow> Flags \<Rightarrow> string \<Rightarrow> abort + string option" where
  "outputDirOf cwd f scannedPath =
     (case convertParts cwd f scannedPath of
        Inl e \<Rightarrow> Inl e
      | Inr None \<Rightarrow> Inr None
      | Inr (Some (inputDir, inputBase, outputDir)) \<Rightarrow> Inr (Some outputDir))"

text \<open>Flags as \<open>flag.Parse\<close> leaves them when no option is given.\<close>

definition defaultFlags :: Flags where
  "defaultFlags = \<lparr> scan = False, porcelain = False, dryRun = False, interactive = False,
     readOnly = False, out = [], inp = [], origParent = [], newParent = [],
     hostOverride = [], userOverride = [] \<rparr>"

section \<open>The prompt's answer: \<open>strings.TrimSpace\<close> and \<open>strings.EqualFold\<close>\<close>

text \<open>
  White space as \<open>unicode.IsSpace\<close> has it, in UTF-8: the six ASCII characters, U+0085,
  U+00A0, U+1680, U+2000 to U+200A, U+2028, U+2029, U+202F, U+205F and U+3000.
\<close>

definition spaceRunes :: "string list" where
  "spaceRunes =
     [[CHR 0x09], [CHR 0x0A], [CHR 0x0B], [CHR 0x0C], [CHR 0x0D], [CHR 0x20],
      [CHR 0xC2, CHR 0x85], [CHR 0xC2, CHR 0xA0], [CHR 0xE1, CHR 0x9A, CHR 0x80],
      [CHR 0xE2, CHR 0x80, CHR 0x80], [CHR 0xE2, CHR 0x80, CHR 0x81],
      [CHR 0xE2, CHR 0x80, CHR 0x82], [CHR 0xE2, CHR 0x80, CHR 0x83],
      [CHR 0xE2, CHR 0x80, CHR 0x84], [CHR 0xE2, CHR 0x80, CHR 0x85],
      [CHR 0xE2, CHR 0x80, CHR 0x86], [CHR 0xE2, CHR 0x80, CHR 0x87],
      [CHR 0xE2, CHR 0x80, CHR 0x88], [CHR 0xE2, CHR 0x80, CHR 0x89],
      [CHR 0xE2, CHR 0x80, CHR 0x8A], [CHR 0xE2, CHR 0x80, CHR 0xA8],
      [CHR 0xE2, CHR 0x80, CHR 0xA9], [CHR 0xE2, CHR 0x80, CHR 0xAF],
      [CHR 0xE2, CHR 0x81, CHR 0x9F], [CHR 0xE3, CHR 0x80, CHR 0x80]]"

text \<open>The text after its leading white-space runes; \<open>n\<close> bounds the number of steps.\<close>

fun trimLeft :: "nat \<Rightarrow> string \<Rightarrow> string" where
  "trimLeft 0 s = s"
| "trimLeft (Suc n) s =
     (case find (\<lambda>r. prefix r s) spaceRunes of
        None \<Rightarrow> s
      | Some r \<Rightarrow> trimLeft n (drop (length r) s))"

text \<open>
  \<open>strings.TrimSpace\<close>: leading and trailing white space removed. The trailing runes are
  found from the end of the text, which is the same as trimming the reversed text by the
  reversed encodings. Each step removes at least one byte, so \<open>length s\<close> steps are enough.
\<close>

definition trimRight :: "string \<Rightarrow> string" where
  "trimRight s =
     (let step = (\<lambda>t. case find (\<lambda>r. suffix r t) spaceRunes of
                     None \<Rightarrow> t | Some r \<Rightarrow> take (length t - length r) t)
      in (step ^^ length s) s)"

definition TrimSpace :: "string \<Rightarrow> string" where
  "TrimSpace s = trimRight (trimLeft (length s) s)"

text \<open>
  \<open>strings.EqualFold(s, t)\<close> for an ASCII text \<open>t\<close>: equality under simple Unicode case
  folding. An ASCII letter folds with its other case; beyond ASCII only U+017F (long s, with
  \<open>s\<close>) and U+212A (Kelvin sign, with \<open>k\<close>) fold to an ASCII letter.
\<close>

definition asciiLower :: "char \<Rightarrow> char" where
  "asciiLower c =
     (if (65::nat) \<le> of_char c \<and> of_char c \<le> (90::nat)
      then char_of (of_char c + (32::nat)) else c)"

fun EqualFold :: "string \<Rightarrow> string \<Rightarrow> bool" where
  "EqualFold [] [] = True"
| "EqualFold [] (t # ts) = False"
| "EqualFold (c # cs) [] = False"
| "EqualFold (c # cs) (t # ts) =
     (if of_char c < (128::nat) then asciiLower c = asciiLower t \<and> EqualFold cs ts
      else if prefix [CHR 0xC5, CHR 0xBF] (c # cs)
        then asciiLower t = CHR ''s'' \<and> EqualFold (drop 1 cs) ts
      else if prefix [CHR 0xE2, CHR 0x84, CHR 0xAA] (c # cs)
        then asciiLower t = CHR ''k'' \<and> EqualFold (drop 2 cs) ts
      else False)"

section \<open>The file system the program acts on\<close>

text \<open>
  The operating system is modelled as far as the program uses it. A file system is a table
  from cleaned absolute paths to nodes: a regular file with its contents and permission bits,
  or a directory with its permission bits. \<open>workDir\<close> is the working directory of the
  process, against which a relative path is resolved. The process is an unprivileged user
  that owns the files, so the owner bits of a file decide. The permission bits of a directory
  are recorded but not consulted: the process is taken to be able to search and write every
  directory. There are no symbolic links. \<open>umask\<close> is the process's file-creation mask and
  \<open>diskFull\<close> makes a write of data fail.
\<close>

datatype node = File string "32 word" | Directory "32 word"

datatype os_error = ENOENT | EACCES | EISDIR | ENOTDIR | ENOTEMPTY | ENOSPC

record world =
  files :: "(string \<times> node) list"
  workDir :: string
  umask :: "32 word"
  diskFull :: bool

definition IsNotExist :: "os_error \<Rightarrow> bool" where
  "IsNotExist e = (e = ENOENT)"

text \<open>Owner read bit \<open>0400\<close> and owner write bit \<open>0200\<close>.\<close>

definition readable :: "32 word \<Rightarrow> bool" where
  "readable m = (m AND 256 \<noteq> 0)"

definition writable :: "32 word \<Rightarrow> bool" where
  "writable m = (m AND 128 \<noteq> 0)"

text \<open>The absolute path a name stands for: a relative one starts at the working directory.\<close>

definition resolve :: "world \<Rightarrow> string \<Rightarrow> string" where
  "resolve w p = (if IsAbs p then Clean p else Join (workDir w) p)"

text \<open>The directories above a path, from the root down.\<close>

definition ancestors :: "string \<Rightarrow> string list" where
  "ancestors p =
     map (\<lambda>es. ''/'' @ joinSlash es)
       (butlast (prefixes (filter (\<lambda>e. e \<noteq> []) (elems (Clean p)))))"

definition isFile :: "world \<Rightarrow> string \<Rightarrow> bool" where
  "isFile w p = (case map_of (files w) p of Some (File c m) \<Rightarrow> True | _ \<Rightarrow> False)"

definition isDir :: "world \<Rightarrow> string \<Rightarrow> bool" where
  "isDir w p = (case map_of (files w) p of Some (Directory m) \<Rightarrow> True | _ \<Rightarrow> False)"

text \<open>Path resolution: a regular file on the way is \<open>ENOTDIR\<close>, a missing name \<open>ENOENT\<close>.\<close>

definition lookup :: "world \<Rightarrow> string \<Rightarrow> os_error + node" where
  "lookup w p =
     (if list_ex (isFile w) (ancestors (resolve w p)) then Inl ENOTDIR
      else (case map_of (files w) (resolve w p) of None \<Rightarrow> Inl ENOENT | Some n \<Rightarrow> Inr n))"

definition os_Stat :: "world \<Rightarrow> string \<Rightarrow> os_error + node" where
  "os_Stat w p = lookup w p"

text \<open>\<open>os.Open\<close> opens for reading; a directory can be opened, reading it fails.\<close>

definition os_Open :: "world \<Rightarrow> string \<Rightarrow> os_error + node" where
  "os_Open w p =
     (case lookup w p of
        Inl e \<Rightarrow> Inl e
      | Inr (Directory m) \<Rightarrow> Inr (Directory m)
      | Inr (File c m) \<Rightarrow> if readable m then Inr (File c m) else Inl EACCES)"

definition readAll :: "node \<Rightarrow> os_error + string" where
  "readAll h = (case h of Directory m \<Rightarrow> Inl EISDIR | File c m \<Rightarrow> Inr c)"

text \<open>\<open>os.Remove\<close> unlinks a file or removes an empty directory.\<close>

definition os_Remove :: "world \<Rightarrow> string \<Rightarrow> os_error option \<times> world" where
  "os_Remove w p =
     (case lookup w p of
        Inl e \<Rightarrow> (Some e, w)
      | Inr (File c m) \<Rightarrow> (None, w\<lparr>files := AList.delete (resolve w p) (files w)\<rparr>)
      | Inr (Directory m) \<Rightarrow>
          if list_ex (\<lambda>(q, n). resolve w p \<in> set (ancestors q)) (files w)
          then (Some ENOTEMPTY, w)
          else (None, w\<lparr>files := AList.delete (resolve w p) (files w)\<rparr>))"

text \<open>
  \<open>os.MkdirAll(path, os.ModePerm)\<close>: every directory on the way is created unless it is
  there, with mode \<open>0777\<close> without the bits of the mask.
\<close>

fun mkdirs :: "world \<Rightarrow> string list \<Rightarrow> os_error + world" where
  "mkdirs w [] = Inr w"
| "mkdirs w (d # ds) =
     (case map_of (files w) d of
        Some (File c m) \<Rightarrow> Inl ENOTDIR
      | Some (Directory m) \<Rightarrow> mkdirs w ds
      | None \<Rightarrow>
          mkdirs (w\<lparr>files := AList.update d (Directory (511 AND NOT (umask w))) (files w)\<rparr>) ds)"

definition os_MkdirAll :: "world \<Rightarrow> string \<Rightarrow> os_error + world" where
  "os_MkdirAll w d = mkdirs w (ancestors (resolve w d) @ [resolve w d])"

text \<open>
  \<open>os.Create\<close> opens with \<open>O_RDWR|O_CREATE|O_TRUNC\<close> and mode \<open>0666\<close>: a new file gets
  mode \<open>0666\<close> without the bits of the mask, an existing one is truncated and needs the
  read and the write bit. The result is the absolute path of the open file.
\<close>

definition os_Create :: "world \<Rightarrow> string \<Rightarrow> (os_error + string) \<times> world" where
  "os_Create w p =
     (case lookup w p of
        Inl e \<Rightarrow>
          if e = ENOENT \<and> isDir w (Dir (resolve w p))
          then (Inr (resolve w p),
                w\<lparr>files := AList.update (resolve w p) (File [] (438 AND NOT (umask w)))
                             (files w)\<rparr>)
          else (Inl e, w)
      | Inr (Directory m) \<Rightarrow> (Inl EISDIR, w)
      | Inr (File c m) \<Rightarrow>
          if readable m \<and> writable m
          then (Inr (resolve w p),
                w\<lparr>files := AList.update (resolve w p) (File [] m) (files w)\<rparr>)
          else (Inl EACCES, w))"

text \<open>\<open>os.Chmod\<close> sets the permission bits of a file or of a directory.\<close>

definition os_Chmod :: "world \<Rightarrow> string \<Rightarrow> 32 word \<Rightarrow> os_error option \<times> world" where
  "os_Chmod w p mode =
     (case lookup w p of
        Inl e \<Rightarrow> (Some e, w)
      | Inr (Directory m) \<Rightarrow>
          (None, w\<lparr>files := AList.update (resolve w p) (Directory mode) (files w)\<rparr>)
      | Inr (File c m) \<Rightarrow>
          (None, w\<lparr>files := AList.update (resolve w p) (File c mode) (files w)\<rparr>))"

text \<open>What \<open>outputWriter\<close> returns: \<open>ioutil.Discard\<close>, an open file, or standard output.\<close>

datatype writer = Discard | FileWriter string | Stdout

text \<open>Writing to an open file appends to it (it was just created or truncated).\<close>

definition writeTo :: "world \<Rightarrow> writer \<Rightarrow> string \<Rightarrow> os_error option \<times> world" where
  "writeTo w wr b =
     (case wr of
        FileWriter p \<Rightarrow>
          (if b = [] then (None, w)
           else if diskFull w then (Some ENOSPC, w)
           else (case map_of (files w) p of
                   Some (File c m) \<Rightarrow>
                     (None, w\<lparr>files := AList.update p (File (c @ b) m) (files w)\<rparr>)
                 | _ \<Rightarrow> (None, w)))
      | _ \<Rightarrow> (None, w))"

section \<open>Rendering, classification and the output gate\<close>

text \<open>
  A Go byte slice is \<open>nil\<close> (\<open>None\<close>) or a sequence of bytes; \<open>reflect.DeepEqual\<close> holds a
  \<open>nil\<close> slice and an empty one that is not \<open>nil\<close> to be different. A fresh
  \<open>bytes.Buffer\<close> has a \<open>nil\<close> slice and keeps it until data is written (\<open>bufWritten\<close>);
  \<open>io.Copy\<close> into a buffer goes through \<open>ReadFrom\<close>, which allocates before it reads
  (\<open>bufReadFrom\<close>).
\<close>

type_synonym byteSlice = "string option"

definition DeepEqual :: "byteSlice \<Rightarrow> byteSlice \<Rightarrow> bool" where
  "DeepEqual x y =
     (case x of
        None \<Rightarrow> (case y of None \<Rightarrow> True | Some b \<Rightarrow> False)
      | Some a \<Rightarrow> (case y of None \<Rightarrow> False | Some b \<Rightarrow> a = b))"

definition bufWritten :: "string \<Rightarrow> byteSlice" where
  "bufWritten b = (if b = [] then None else Some b)"

definition bufReadFrom :: "string \<Rightarrow> byteSlice" where
  "bufReadFrom c = Some c"

definition sliceBytes :: "byteSlice \<Rightarrow> string" where
  "sliceBytes x = (case x of None \<Rightarrow> [] | Some b \<Rightarrow> b)"

datatype mode = CREATE | MODIFY | KEEP | FAIL

datatype render_error = ReadFailed os_error | TemplateFailed string

text \<open>What the program prints, in order: log lines, the prompt, and the status line.\<close>

datatype event =
    LogOpenFailed string os_error       \<comment> \<open>\<open>Failed to open for reading %s: %s ... skipping\<close>\<close>
  | LogExecuteFailed string render_error  \<comment> \<open>\<open>Failed to execute template %s\<close>\<close>
  | LogUnexpectedExisting os_error      \<comment> \<open>\<open>Unexpected error getting existing output contents\<close>\<close>
  | LogCreateFailed string os_error     \<comment> \<open>\<open>Failed to create file %s: %s ... skipping\<close>\<close>
  | LogCopyFailed os_error              \<comment> \<open>\<open>Unexpected error copying file\<close>\<close>
  | LogReadOnlyFailed os_error          \<comment> \<open>\<open>Failed to mark output path read only\<close>\<close>
  | PromptReplace string                \<comment> \<open>\<open>Replace %s? [y|n]\<close>\<close>
  | StatusPorcelain mode string string  \<comment> \<open>\<open>mode, scanned path, output path\<close>, tab separated\<close>
  | StatusHuman mode string string      \<comment> \<open>the sentence for the mode\<close>

text \<open>
  \<open>executeTemplate\<close>: the input is read, parsed into the program's one global template
  \<open>t\<close> and executed into the buffer. Since every input is parsed into the same template,
  what an input renders to can depend on the inputs parsed before it. The template engine
  is the parameter \<open>tmpl\<close>: from the state of the global template and the template text
  to the rendered text or the engine's error, and the new state. The configuration is taken
  as loaded.
\<close>

definition executeTemplate :: "('t \<Rightarrow> string \<Rightarrow> (string + string) \<times> 't) \<Rightarrow> 't \<Rightarrow> node \<Rightarrow>
    (render_error + byteSlice) \<times> 't" where
  "executeTemplate tmpl ts r =
     (case readAll r of
        Inl e \<Rightarrow> (Inl (ReadFailed e), ts)
      | Inr bs \<Rightarrow>
         (case tmpl ts bs of
            (Inl msg, ts') \<Rightarrow> (Inl (TemplateFailed msg), ts')
          | (Inr rendered, ts') \<Rightarrow> (Inr (bufWritten rendered), ts')))"

definition getExistingOutputFileContents :: "world \<Rightarrow> string \<Rightarrow> abort + (os_error + byteSlice)" where
  "getExistingOutputFileContents w outputPath =
     (if outputPath = [] then Inl PanicOutputPathRequired
      else Inr (case os_Open w outputPath of
                  Inl e \<Rightarrow> Inl e
                | Inr file \<Rightarrow> (case readAll file of Inl e \<Rightarrow> Inl e
                                               | Inr c \<Rightarrow> Inr (bufReadFrom c))))"

text \<open>Lines 91 to 103 of \<open>scan\<close>: the mode once the template has been rendered.\<close>

definition classifyExisting :: "byteSlice \<Rightarrow> os_error + byteSlice \<Rightarrow> mode \<times> event list" where
  "classifyExisting b existing =
     (case existing of
        Inl e \<Rightarrow> (CREATE, if \<not> IsNotExist e then [LogUnexpectedExisting e] else [])
      | Inr ex \<Rightarrow> if \<not> DeepEqual b ex then (MODIFY, []) else (KEEP, []))"

text \<open>Lines 84 to 104 of \<open>scan\<close>; the existing file is only looked at after a good render.\<close>

definition classify :: "world \<Rightarrow> string \<Rightarrow> string \<Rightarrow> render_error + byteSlice \<Rightarrow>
    abort + (mode \<times> event list)" where
  "classify w scannedPath outputPath rendered =
     (case rendered of
        Inl err \<Rightarrow> Inr (FAIL, [LogExecuteFailed scannedPath err])
      | Inr b \<Rightarrow>
         (case getExistingOutputFileContents w outputPath of
            Inl a \<Rightarrow> Inl a
          | Inr existing \<Rightarrow> Inr (classifyExisting b existing)))"

definition markFileReadOnly :: "world \<Rightarrow> string \<Rightarrow> os_error option \<times> world" where
  "markFileReadOnly w outputPath = os_Chmod w outputPath 292"

definition createOutputFile :: "world \<Rightarrow> string \<Rightarrow> (os_error + writer) \<times> world" where
  "createOutputFile w outputPath =
     (let w1 = snd (os_Remove w outputPath);
          dir = Dir outputPath
      in case os_MkdirAll w1 dir of
           Inl err \<Rightarrow> (Inl err, w1)
         | Inr w2 \<Rightarrow>
            (case os_Create w2 outputPath of
               (Inl err, w3) \<Rightarrow> (Inl err, w3)
             | (Inr fd, w3) \<Rightarrow> (Inr (FileWriter fd), w3)))"

text \<open>The errors of the output gate: the sentinel \<open>skipReplace\<close>, or an error of the system.\<close>

datatype gate_error = skipReplace | OsError os_error

definition liftCreate :: "(os_error + writer) \<times> world \<Rightarrow> (gate_error + writer) \<times> world" where
  "liftCreate r = (case r of (Inl e, w) \<Rightarrow> (Inl (OsError e), w) | (Inr wr, w) \<Rightarrow> (Inr wr, w))"

text \<open>\<open>answer\<close> is the text \<open>reader.ReadString('\n')\<close> returns from standard input.\<close>

definition saysYes :: "string \<Rightarrow> bool" where
  "saysYes answer =
     (let text = TrimSpace answer in EqualFold text ''y'' \<or> EqualFold text ''yes'')"

definition promptAndCreateOutputFile :: "Flags \<Rightarrow> string \<Rightarrow> world \<Rightarrow> string \<Rightarrow>
    event list \<times> (gate_error + writer) \<times> world" where
  "promptAndCreateOutputFile f answer w outputPath =
     (if shouldDryRun f then ([], Inr Discard, w)
      else if \<not> shouldPromptBeforeWrite f then ([], liftCreate (createOutputFile w outputPath))
      else (case os_Stat w outputPath of
              Inl err \<Rightarrow> ([], liftCreate (createOutputFile w outputPath))
            | Inr info \<Rightarrow>
                if saysYes answer
                then ([PromptReplace outputPath], liftCreate (createOutputFile w outputPath))
                else ([PromptReplace outputPath], Inl skipReplace, w)))"

definition getOutputPathForNonScan :: "string option \<Rightarrow> Flags \<Rightarrow> abort + string" where
  "getOutputPathForNonScan cwd f =
     (if shouldScan f then Inl PanicScanning
      else if out f = [] then convertOutputPath cwd f []
      else Inr (out f))"

text \<open>The working directory is the one \<open>os.Getwd\<close> returns.\<close>

definition outputWriter :: "Flags \<Rightarrow> string \<Rightarrow> world \<Rightarrow> string \<Rightarrow>
    abort + (event list \<times> (gate_error + writer) \<times> world)" where
  "outputWriter f answer w outputPath =
     (if outputPath \<noteq> [] then Inr (promptAndCreateOutputFile f answer w outputPath)
      else (case getOutputPathForNonScan (Some (workDir w)) f of
              Inl a \<Rightarrow> Inl a
            | Inr p \<Rightarrow> if p = [] then Inr ([], Inr Stdout, w)
                       else Inr (promptAndCreateOutputFile f answer w p)))"

section \<open>The scan of one directory entry\<close>

definition statusLine :: "Flags \<Rightarrow> mode \<Rightarrow> string \<Rightarrow> string \<Rightarrow> event" where
  "statusLine f m scannedPath outputPath =
     (if porcelain f then StatusPorcelain m scannedPath outputPath
      else StatusHuman m scannedPath outputPath)"

text \<open>Lines 118 to 129 of \<open>scan\<close>: the copy into the writer and the read-only mark.\<close>

definition copyAndMark :: "Flags \<Rightarrow> world \<Rightarrow> writer \<Rightarrow> string \<Rightarrow> mode \<Rightarrow> string \<Rightarrow>
    mode \<times> event list \<times> world" where
  "copyAndMark f w wr b m outputPath =
     (let (cerr, w2) = writeTo w wr b;
          (m', ev3) = (case cerr of Some e \<Rightarrow> (FAIL, [LogCopyFailed e]) | None \<Rightarrow> (m, []))
      in if readOnly f then
           (case markFileReadOnly w2 outputPath of
              (Some e, w3) \<Rightarrow> (m', ev3 @ [LogReadOnlyFailed e], w3)
            | (None, w3) \<Rightarrow> (m', ev3, w3))
         else (m', ev3, w2))"

text \<open>
  What \<open>filepath.Walk\<close> is told after an entry: go on (\<open>nil\<close>) or skip the directory.
\<close>

datatype walk = WalkContinue | SkipDir

text \<open>
  The error \<open>filepath.Walk\<close> hands to its function: \<open>Lstat\<close> of the entry failed, and
  then the \<open>FileInfo\<close> is \<open>nil\<close>; or the entry is a directory whose names could not be
  read, and then the \<open>FileInfo\<close> is there.
\<close>

datatype walk_error = LstatFailed os_error | ReadDirFailed os_error

text \<open>
  The function \<open>scan\<close> passes to \<open>filepath.Walk\<close>, for the entry \<open>p\<close>. \<open>err\<close> is the
  error of the walk for this entry, \<open>answer\<close> the line that standard input holds for a
  prompt, \<open>ts\<close> the state of the global template. The entry's name and kind are those of
  the file system; the working directory is the one \<open>os.Getwd\<close> returns. The messages
  show paths through \<open>nicePath\<close> (relative to the working directory), which cannot fail on
  the absolute paths of a scan; the events carry the paths themselves.
\<close>

definition scanEntry :: "Flags \<Rightarrow> ('t \<Rightarrow> string \<Rightarrow> (string + string) \<times> 't) \<Rightarrow> 't \<Rightarrow> string \<Rightarrow>
    world \<Rightarrow> string \<Rightarrow> walk_error option \<Rightarrow> abort + (walk \<times> event list \<times> world \<times> 't)" where
  "scanEntry f tmpl ts answer w p err =
     (case err of
        Some (LstatFailed e) \<Rightarrow> Inl PanicNilFileInfo
      | _ \<Rightarrow>
        (if isDir w (resolve w p) \<and> Base p = ''.templater''
         then Inr (SkipDir, [], w, ts)
         else if err = None \<and> MatchString templRegEx (Base p) then
           (if \<not> IsAbs p then Inl (PanicNotAbsolute p)
            else
              (case convertOutputPath (Some (workDir w)) f p of
                 Inl a \<Rightarrow> Inl a
               | Inr outputPath \<Rightarrow>
                  (case os_Open w p of
                     Inl e \<Rightarrow> Inr (WalkContinue, [LogOpenFailed p e], w, ts)
                   | Inr r \<Rightarrow>
                      (case executeTemplate tmpl ts r of
                         (rendered, ts') \<Rightarrow>
                           (let b = (case rendered of Inl e \<Rightarrow> [] | Inr bs \<Rightarrow> sliceBytes bs)
                            in case classify w p outputPath rendered of
                                 Inl a \<Rightarrow> Inl a
                               | Inr (m, ev) \<Rightarrow>
                                  if m = MODIFY \<or> m = CREATE then
                                    (case outputWriter f answer w outputPath of
                                       Inl a \<Rightarrow> Inl a
                                     | Inr (ev2, Inl skipReplace, w1) \<Rightarrow>
                                         Inr (WalkContinue, ev @ ev2, w1, ts')
                                     | Inr (ev2, Inl (OsError e), w1) \<Rightarrow>
                                         Inr (WalkContinue,
                                              ev @ ev2 @ [LogCreateFailed outputPath e], w1, ts')
                                     | Inr (ev2, Inr wr, w1) \<Rightarrow>
                                         (case copyAndMark f w1 wr b m outputPath of
                                            (m', ev3, w3) \<Rightarrow>
                                              Inr (WalkContinue,
                                                   ev @ ev2 @ ev3 @ [statusLine f m' p outputPath],
                                                   w3, ts')))
                                  else Inr (WalkContinue,
                                            ev @ [statusLine f m p outputPath], w, ts'))))))
         else Inr (WalkContinue, [], w, ts)))"

section \<open>Suffix stripping\<close>

lemma Contains_iff: "Contains s sub \<longleftrightarrow> (\<exists>u v. s = u @ sub @ v)"
proof (induction s)
  case Nil
  then show ?case by auto
next
  case (Cons c cs)
  show ?case
  proof
    assume "Contains (c # cs) sub"
    then consider "prefix sub (c # cs)" | "Contains cs sub" by auto
    then show "\<exists>u v. c # cs = u @ sub @ v"
    proof cases
      case 1
      then obtain v where "c # cs = sub @ v" by (auto simp: prefix_def)
      then have "c # cs = [] @ sub @ v" by simp
      then show ?thesis by blast
    next
      case 2
      then obtain u v where "cs = u @ sub @ v" using Cons.IH by blast
      then have "c # cs = (c # u) @ sub @ v" by simp
      then show ?thesis by blast
    qed
  next
    assume "\<exists>u v. c # cs = u @ sub @ v"
    then obtain u v where uv: "c # cs = u @ sub @ v" by blast
    show "Contains (c # cs) sub"
    proof (cases u)
      case Nil
      then have "prefix sub (c # cs)" using uv by (simp add: prefix_def)
      then show ?thesis by simp
    next
      case (Cons a u')
      then have "cs = u' @ sub @ v" using uv by simp
      then have "Contains cs sub" using Cons.IH by blast
      then show ?thesis by simp
    qed
  qed
qed

lemma Replace1_absent: "\<not> Contains s old \<Longrightarrow> Replace1 s old new = s"
  by (induction s) auto

lemma Replace1_first:
  "old \<noteq> [] \<Longrightarrow> \<not> Contains (pre @ butlast old) old \<Longrightarrow>
   Replace1 (pre @ old @ post) old new = pre @ new @ post"
proof (induction pre)
  case Nil
  then show ?case by (cases old) auto
next
  case (Cons c pre)
  have np: "\<not> prefix old ((c # pre) @ butlast old)" and nc: "\<not> Contains (pre @ butlast old) old"
    using Cons.prems(2) by auto
  have "\<not> prefix old ((c # pre) @ old @ post)"
  proof
    assume p: "prefix old ((c # pre) @ old @ post)"
    have "length old \<le> length ((c # pre) @ butlast old)" using Cons.prems(1) by (cases old) auto
    moreover have "(c # pre) @ old @ post = ((c # pre) @ butlast old) @ (last old # post)"
      using Cons.prems(1) by simp
    ultimately have "prefix old ((c # pre) @ butlast old)"
      using p by (metis prefix_length_prefix prefixI)
    then show False using np by simp
  qed
  then show ?case using Cons.IH[OF Cons.prems(1) nc] by simp
qed

text \<open>
  C4: \<open>stripTempl\<close> removes exactly the first occurrence of \<open>.tmpl\<close> from a base name:
  when the name is \<open>pre @ ''.tmpl'' @ post\<close> and no occurrence of \<open>.tmpl\<close> starts
  earlier (none lies within \<open>pre @ ''.tmp''\<close>), the result is \<open>pre @ post\<close>, so
  everything after the first occurrence, a second \<open>.tmpl\<close> included, is kept as it is;
  a base name that does not contain \<open>.tmpl\<close> is returned unchanged.
\<close>

theorem stripTempl_first_occurrence:
  "(\<not> Contains (pre @ ''.tmp'') ''.tmpl'' \<longrightarrow>
      stripTempl (pre @ ''.tmpl'' @ post) = pre @ post) \<and>
   (\<not> Contains base ''.tmpl'' \<longrightarrow> stripTempl base = base)"
proof -
  have "butlast ''.tmpl'' = ''.tmp''" by simp
  then have "\<not> Contains (pre @ ''.tmp'') ''.tmpl'' \<Longrightarrow>
      Replace1 (pre @ ''.tmpl'' @ post) ''.tmpl'' '''' = pre @ '''' @ post"
    using Replace1_first[of "''.tmpl''" pre post "''''"] by simp
  then show ?thesis
    by (simp add: stripTempl_def extension_def Replace1_absent)
qed

theorem stripTempl_first_occurrence_witness:
  "\<not> Contains (''a'' @ ''.tmp'') ''.tmpl'' \<and>
   stripTempl (''a'' @ ''.tmpl'' @ ''.tmpl.bak'') = ''a.tmpl.bak'' \<and>
   \<not> Contains ''notes.txt'' ''.tmpl'' \<and> stripTempl ''notes.txt'' = ''notes.txt''"
  using stripTempl_first_occurrence[of "''a''" "''.tmpl.bak''" "''notes.txt''"]
  by simp

section \<open>The file-name pattern\<close>

lemma run_Str: "set (run (Str w) (n, s)) = (if prefix w s then {(n + length w, drop (length w) s)} else {})"
proof (induction w arbitrary: n s)
  case Nil
  then show ?case by simp
next
  case (Cons a w)
  show ?case by (cases s) (auto simp: Cons.IH)
qed

lemma star_any: "set (star_run (run AnyCharNotNL) k (n, s)) =
  {(n + j, drop j s) | j. j \<le> k \<and> j \<le> length s \<and> CHR 0x0A \<notin> set (take j s)}"
proof (induction k arbitrary: n s)
  case 0
  then show ?case by auto
next
  case (Suc k)
  show ?case
  proof (cases s)
    case Nil
    then show ?thesis by auto
  next
    case (Cons c cs)
    show ?thesis
    proof (cases "c = CHR 0x0A")
      case True
      have "\<And>j. j \<le> Suc k \<and> j \<le> length s \<and> CHR 0x0A \<notin> set (take j s) \<longleftrightarrow> j = 0"
        using Cons True by (case_tac j) auto
      then show ?thesis using Cons True by auto
    next
      case False
      have "{(n + j, drop j s) | j. j \<le> Suc k \<and> j \<le> length s \<and> CHR 0x0A \<notin> set (take j s)}
          = insert (n, s) {(Suc n + j, drop j cs) | j. j \<le> k \<and> j \<le> length cs \<and> CHR 0x0A \<notin> set (take j cs)}"
        (is "?L = ?R")
      proof (rule set_eqI)
        fix x
        show "x \<in> ?L \<longleftrightarrow> x \<in> ?R"
        proof
          assume "x \<in> ?L"
          then obtain j where j: "x = (n + j, drop j s)" "j \<le> Suc k" "j \<le> length s" "CHR 0x0A \<notin> set (take j s)" by blast
          show "x \<in> ?R"
          proof (cases j)
            case 0
            then show ?thesis using j by simp
          next
            case (Suc j')
            then have "x = (Suc n + j', drop j' cs)" "j' \<le> k" "j' \<le> length cs" "CHR 0x0A \<notin> set (take j' cs)"
              using j Cons by auto
            then show ?thesis by blast
          qed
        next
          assume "x \<in> ?R"
          then consider "x = (n, s)" | j where "x = (Suc n + j, drop j cs)" "j \<le> k" "j \<le> length cs" "CHR 0x0A \<notin> set (take j cs)"
            by blast
          then show "x \<in> ?L"
          proof cases
            case 1
            then have "x = (n + 0, drop 0 s) \<and> 0 \<le> Suc k \<and> 0 \<le> length s \<and> CHR 0x0A \<notin> set (take 0 s)" by simp
            then show ?thesis by blast
          next
            case 2
            then have "x = (n + Suc j, drop (Suc j) s) \<and> Suc j \<le> Suc k \<and> Suc j \<le> length s \<and> CHR 0x0A \<notin> set (take (Suc j) s)"
              using Cons False by simp
            then show ?thesis by blast
          qed
        qed
      qed
      then show ?thesis using Cons False Suc.IH[of "Suc n" cs] by simp
    qed
  qed
qed


lemma tail_nonempty:
  "run (Alt (Lit CHR ''.'') EndText) (n, t) \<noteq> [] \<longleftrightarrow> (t = [] \<or> (\<exists>u. t = CHR ''.'' # u))"
  by (cases t) auto

lemma nonempty_Cat:
  "run (Cat r1 r2) st \<noteq> [] \<longleftrightarrow> (\<exists>p \<in> set (run r1 st). run r2 p \<noteq> [])"
  by auto

lemma Str_ext: "Cat (Lit CHR ''.'') (Str extension) = Str ''.tmpl''"
  by (simp add: extension_def)

lemma templRegEx_at:
  "run templRegEx (i, t) \<noteq> [] \<longleftrightarrow>
   i = 0 \<and> (\<exists>pre post. t = pre @ ''.tmpl'' @ post \<and> CHR 0x0A \<notin> set pre \<and>
      (post = [] \<or> (\<exists>u. post = CHR ''.'' # u)))"
  (is "?L \<longleftrightarrow> ?R")
proof
  assume ?L
  then obtain p1 where p1: "p1 \<in> set (run BeginText (i, t))"
    and r1: "run (Cat (Star AnyCharNotNL) (Cat (Str ''.tmpl'') (Alt (Lit CHR ''.'') EndText))) p1 \<noteq> []"
    unfolding templRegEx_def Str_ext nonempty_Cat by blast
  from p1 have i0: "i = 0" and p1eq: "p1 = (0, t)" by (auto split: if_splits)
  from r1 obtain p2 where p2: "p2 \<in> set (run (Star AnyCharNotNL) (0, t))"
    and r2: "run (Cat (Str ''.tmpl'') (Alt (Lit CHR ''.'') EndText)) p2 \<noteq> []"
    unfolding nonempty_Cat p1eq by blast
  from p2 have "p2 \<in> set (star_run (run AnyCharNotNL) (length t) (0, t))" by simp
  then obtain j where j: "p2 = (j, drop j t)" "j \<le> length t" "CHR 0x0A \<notin> set (take j t)"
    unfolding star_any by auto
  from r2 obtain p3 where p3: "p3 \<in> set (run (Str ''.tmpl'') (j, drop j t))"
    and r3: "run (Alt (Lit CHR ''.'') EndText) p3 \<noteq> []"
    unfolding nonempty_Cat j(1) by blast
  from p3 have pre: "prefix ''.tmpl'' (drop j t)"
    unfolding run_Str by (auto split: if_splits)
  then obtain post where post: "drop j t = ''.tmpl'' @ post" by (auto simp: prefix_def)
  from p3 obtain n3 where p3eq: "p3 = (n3, post)"
    unfolding post run_Str by simp
  have tl: "post = [] \<or> (\<exists>u. post = CHR ''.'' # u)"
    using r3 unfolding p3eq tail_nonempty .
  have "t = take j t @ ''.tmpl'' @ post" using post by (metis append_take_drop_id)
  then show ?R using i0 j(3) tl by blast
next
  assume ?R
  then obtain pre post where i0: "i = 0" and t: "t = pre @ ''.tmpl'' @ post"
    and nl: "CHR 0x0A \<notin> set pre" and tl: "post = [] \<or> (\<exists>u. post = CHR ''.'' # u)" by blast
  let ?j = "length pre"
  have a: "(0, t) \<in> set (run BeginText (i, t))" using i0 by simp
  have "(0 + ?j, drop ?j t) \<in> set (star_run (run AnyCharNotNL) (length t) (0, t))"
    unfolding star_any using t nl by (intro CollectI exI[of _ ?j]) simp
  then have b: "(?j, ''.tmpl'' @ post) \<in> set (run (Star AnyCharNotNL) (0, t))"
    using t by simp
  have c: "(?j + 5, post) \<in> set (run (Str ''.tmpl'') (?j, ''.tmpl'' @ post))"
    unfolding run_Str by simp
  have d: "run (Alt (Lit CHR ''.'') EndText) (?j + 5, post) \<noteq> []"
    unfolding tail_nonempty using tl by simp
  have "run (Cat (Str ''.tmpl'') (Alt (Lit CHR ''.'') EndText)) (?j, ''.tmpl'' @ post) \<noteq> []"
    unfolding nonempty_Cat using c d by blast
  then have "run (Cat (Star AnyCharNotNL) (Cat (Str ''.tmpl'') (Alt (Lit CHR ''.'') EndText))) (0, t) \<noteq> []"
    unfolding nonempty_Cat using b by blast
  then show ?L
    unfolding templRegEx_def Str_ext nonempty_Cat using a by blast
qed

lemma MatchString_templRegEx:
  "MatchString templRegEx name \<longleftrightarrow>
   (\<exists>pre post. name = pre @ ''.tmpl'' @ post \<and> CHR 0x0A \<notin> set pre \<and>
      (post = [] \<or> (\<exists>u. post = CHR ''.'' # u)))"
proof -
  have "MatchString templRegEx name \<longleftrightarrow> (\<exists>i \<le> length name. run templRegEx (i, drop i name) \<noteq> [])"
    unfolding MatchString_def list_ex_iff set_upt atLeastLessThan_iff Bex_def
    by (simp add: less_Suc_eq_le)
  also have "\<dots> \<longleftrightarrow> run templRegEx (0, name) \<noteq> []"
    using templRegEx_at[of 0 name] templRegEx_at by (metis drop0 le0)
  finally show ?thesis using templRegEx_at[of 0 name] by simp
qed

lemma templRegEx_examples:
  "MatchString templRegEx ''foo.tmpl''" "MatchString templRegEx ''foo.tmpl.bak''"
  "\<not> MatchString templRegEx ''footmpl''"
  by code_simp+

text \<open>
  C9 (counterexample): the name \<open>a<newline>.tmpl\<close> contains \<open>.tmpl\<close> ending at the end
  of the name, yet the pattern does not match it, because \<open>.\<close> does not match a newline.
\<close>

theorem templRegEx_newline_counterexample:
  "spec_suffixPattern [CHR ''a'', CHR 0x0A, CHR ''.'', CHR ''t'', CHR ''m'', CHR ''p'', CHR ''l'']
   \<and> \<not> MatchString templRegEx
        [CHR ''a'', CHR 0x0A, CHR ''.'', CHR ''t'', CHR ''m'', CHR ''p'', CHR ''l'']"
  by code_simp

lemma spec_suffixPattern_iff:
  "spec_suffixPattern s \<longleftrightarrow>
   (\<exists>pre post. s = pre @ ''.tmpl'' @ post \<and> (post = [] \<or> (\<exists>u. post = CHR ''.'' # u)))"
proof (induction s)
  case Nil
  then show ?case by simp
next
  case (Cons c cs)
  let ?B = "\<lambda>post. post = [] \<or> (\<exists>u. post = CHR ''.'' # u)"
  show ?case
  proof
    assume "spec_suffixPattern (c # cs)"
    then consider "c # cs = ''.tmpl''" | "prefix ''.tmpl.'' (c # cs)" | "spec_suffixPattern cs"
      by auto
    then show "\<exists>pre post. c # cs = pre @ ''.tmpl'' @ post \<and> ?B post"
    proof cases
      case 1
      then have "c # cs = [] @ ''.tmpl'' @ [] \<and> ?B []" by simp
      then show ?thesis by blast
    next
      case 2
      then obtain u where "c # cs = ''.tmpl.'' @ u" by (auto simp: prefix_def)
      then have "c # cs = [] @ ''.tmpl'' @ (CHR ''.'' # u) \<and> ?B (CHR ''.'' # u)" by simp
      then show ?thesis by blast
    next
      case 3
      then obtain pre post where "cs = pre @ ''.tmpl'' @ post \<and> ?B post" using Cons.IH by blast
      then have "c # cs = (c # pre) @ ''.tmpl'' @ post \<and> ?B post" by simp
      then show ?thesis by blast
    qed
  next
    assume "\<exists>pre post. c # cs = pre @ ''.tmpl'' @ post \<and> ?B post"
    then obtain pre post where pp: "c # cs = pre @ ''.tmpl'' @ post" "?B post" by blast
    show "spec_suffixPattern (c # cs)"
    proof (cases pre)
      case Nil
      then have "c # cs = ''.tmpl'' \<or> prefix ''.tmpl.'' (c # cs)"
        using pp by (auto simp: prefix_def)
      then show ?thesis by auto
    next
      case (Cons a pre')
      then have "cs = pre' @ ''.tmpl'' @ post" using pp by simp
      then have "spec_suffixPattern cs" using Cons.IH pp(2) by blast
      then show ?thesis by simp
    qed
  qed
qed

text \<open>
  C9 (amended): the pattern matches exactly the names that can be split as
  \<open>pre @ ''.tmpl'' @ post\<close> where \<open>pre\<close> holds no newline and \<open>post\<close> is empty or starts
  with a dot; so on names without a newline it agrees with the specification's wording.
  \<open>foo.tmpl\<close> and \<open>foo.tmpl.bak\<close> match and \<open>footmpl\<close> does not.
\<close>

theorem templRegEx_matches:
  "(MatchString templRegEx name \<longleftrightarrow>
     (\<exists>pre post. name = pre @ ''.tmpl'' @ post \<and> CHR 0x0A \<notin> set pre \<and>
        (post = [] \<or> (\<exists>u. post = CHR ''.'' # u)))) \<and>
   (CHR 0x0A \<notin> set name \<longrightarrow> MatchString templRegEx name = spec_suffixPattern name) \<and>
   MatchString templRegEx ''foo.tmpl'' \<and> MatchString templRegEx ''foo.tmpl.bak'' \<and>
   \<not> MatchString templRegEx ''footmpl''"
proof -
  have nl: "CHR 0x0A \<notin> set name \<Longrightarrow> name = pre @ ''.tmpl'' @ post \<Longrightarrow> CHR 0x0A \<notin> set pre"
    for pre post by auto
  have "CHR 0x0A \<notin> set name \<Longrightarrow> MatchString templRegEx name = spec_suffixPattern name"
    unfolding spec_suffixPattern_iff MatchString_templRegEx using nl by blast
  then show ?thesis
    using MatchString_templRegEx[of name] templRegEx_examples by blast
qed

theorem templRegEx_matches_witness:
  "CHR 0x0A \<notin> set ''foo.tmpl.bak'' \<and> spec_suffixPattern ''foo.tmpl.bak'' \<and>
   MatchString templRegEx ''foo.tmpl.bak'' = spec_suffixPattern ''foo.tmpl.bak''"
proof -
  have a: "CHR 0x0A \<notin> set ''foo.tmpl.bak''" by simp
  have b: "spec_suffixPattern ''foo.tmpl.bak''" by simp
  have "MatchString templRegEx ''foo.tmpl.bak'' = spec_suffixPattern ''foo.tmpl.bak''"
    using templRegEx_matches[of "''foo.tmpl.bak''"] a by blast
  then show ?thesis using a b by blast
qed

section \<open>Path lemmas\<close>

lemma elems_nonempty: "elems p \<noteq> []"
  by (induction p) (auto split: list.splits)

lemma elems_no_slash: "e \<in> set (elems p) \<Longrightarrow> CHR ''/'' \<notin> set e"
proof (induction p arbitrary: e)
  case Nil
  then show ?case by simp
next
  case (Cons c cs)
  show ?case
  proof (cases "c = CHR ''/''")
    case True
    then show ?thesis using Cons by auto
  next
    case False
    obtain x xs where x: "elems cs = x # xs" using elems_nonempty[of cs] by (cases "elems cs") auto
    then have "e = c # x \<or> e \<in> set xs" using Cons.prems False by simp
    then show ?thesis using Cons.IH x False by auto
  qed
qed

lemma cleanStep_normal:
  "\<forall>x\<in>set stk. normalElem x \<Longrightarrow> CHR ''/'' \<notin> set e \<Longrightarrow>
   \<forall>x\<in>set (cleanStep True stk e). normalElem x"
  unfolding cleanStep_def by (cases stk) (simp_all add: normalElem_def)

lemma foldl_cleanStep_normal:
  "\<forall>x\<in>set stk. normalElem x \<Longrightarrow> \<forall>e\<in>set es. CHR ''/'' \<notin> set e \<Longrightarrow>
   \<forall>x\<in>set (foldl (cleanStep True) stk es). normalElem x"
proof (induction es arbitrary: stk)
  case Nil
  then show ?case by simp
next
  case (Cons e es)
  have "\<forall>x\<in>set (cleanStep True stk e). normalElem x"
    by (rule cleanStep_normal) (use Cons.prems in auto)
  then show ?case using Cons.IH Cons.prems by simp
qed

lemma cleanStep_nonempty:
  "\<forall>x\<in>set stk. x \<noteq> [] \<Longrightarrow> \<forall>x\<in>set (cleanStep r stk e). x \<noteq> []"
  unfolding cleanStep_def by (cases stk) simp_all

lemma foldl_cleanStep_nonempty:
  "\<forall>x\<in>set stk. x \<noteq> [] \<Longrightarrow> \<forall>x\<in>set (foldl (cleanStep r) stk es). x \<noteq> []"
proof (induction es arbitrary: stk)
  case Nil
  then show ?case by simp
next
  case (Cons e es)
  show ?case using Cons.IH[OF cleanStep_nonempty[OF Cons.prems]] by simp
qed

lemma joinSlash_nonempty: "es \<noteq> [] \<Longrightarrow> \<forall>x\<in>set es. x \<noteq> [] \<Longrightarrow> joinSlash es \<noteq> []"
  by (induction es rule: joinSlash.induct) auto

lemma Clean_nonempty: "Clean p \<noteq> []"
proof (cases "p = []")
  case True
  then show ?thesis by (simp add: Clean_def)
next
  case False
  let ?stk = "foldl (cleanStep False) [] (elems p)"
  have "\<forall>x\<in>set ?stk. x \<noteq> []" using foldl_cleanStep_nonempty[of "[]"] by simp
  then have "?stk \<noteq> [] \<Longrightarrow> joinSlash (rev ?stk) \<noteq> []"
    using joinSlash_nonempty[of "rev ?stk"] by simp
  then show ?thesis using False by (auto simp: Clean_def Let_def)
qed

lemma Abs_nonempty: "Abs cwd p = Some a \<Longrightarrow> p \<noteq> [] \<Longrightarrow> a \<noteq> []"
  using Clean_nonempty by (auto simp: Abs_def Join_def split: if_splits option.splits)

lemma elems_slash_append:
  "CHR ''/'' \<notin> set e \<Longrightarrow> elems (e @ CHR ''/'' # rest) = e # elems rest"
  by (induction e) auto

lemma elems_no_slash_id: "CHR ''/'' \<notin> set e \<Longrightarrow> elems e = [e]"
  by (induction e) auto

lemma elems_joinSlash:
  "es \<noteq> [] \<Longrightarrow> \<forall>x\<in>set es. CHR ''/'' \<notin> set x \<Longrightarrow> elems (joinSlash es) = es"
  by (induction es rule: joinSlash.induct) (auto simp: elems_slash_append elems_no_slash_id)

lemma foldl_cleanStep_push:
  "\<forall>x\<in>set es. normalElem x \<Longrightarrow> foldl (cleanStep r) stk es = rev es @ stk"
proof (induction es arbitrary: stk)
  case Nil
  then show ?case by simp
next
  case (Cons e es)
  have "cleanStep r stk e = e # stk" using Cons.prems by (simp add: cleanStep_def normalElem_def)
  then show ?case using Cons by simp
qed

lemma Clean_rooted_normal:
  assumes "\<forall>x\<in>set es. normalElem x"
  shows "Clean (CHR ''/'' # joinSlash es) = CHR ''/'' # joinSlash es"
proof (cases "es = []")
  case True
  then show ?thesis by (simp add: Clean_def cleanStep_def)
next
  case False
  have "elems (joinSlash es) = es"
    using elems_joinSlash[OF False] assms by (simp add: normalElem_def)
  then have "foldl (cleanStep True) [] (elems (CHR ''/'' # joinSlash es)) = rev es"
    using foldl_cleanStep_push[OF assms, of True "[]"] by (simp add: cleanStep_def)
  then show ?thesis by (simp add: Clean_def)
qed

lemma Clean_rooted_form:
  assumes "IsAbs p"
  shows "\<exists>es. (\<forall>x\<in>set es. normalElem x) \<and> Clean p = CHR ''/'' # joinSlash es"
proof -
  from assms obtain q where p: "p = CHR ''/'' # q" by (auto simp: IsAbs_def split: list.splits)
  let ?stk = "foldl (cleanStep True) [] (elems p)"
  have "\<forall>x\<in>set ?stk. normalElem x"
    using foldl_cleanStep_normal[of "[]" "elems p"] elems_no_slash by simp
  then have "\<forall>x\<in>set (rev ?stk). normalElem x" by simp
  moreover have "Clean p = CHR ''/'' # joinSlash (rev ?stk)"
    using p by (simp add: Clean_def Let_def)
  ultimately show ?thesis by blast
qed

lemma Clean_idem_abs: "IsAbs p \<Longrightarrow> Clean (Clean p) = Clean p \<and> IsAbs (Clean p)"
  using Clean_rooted_form[of p] Clean_rooted_normal by (auto simp: IsAbs_def)

lemma Abs_idem:
  assumes "Abs (Some wd) p = Some a" "IsAbs wd"
  shows "Abs cwd' a = Some a"
proof -
  have "\<exists>q. IsAbs q \<and> a = Clean q"
  proof (cases "IsAbs p")
    case True
    then show ?thesis using assms by (auto simp: Abs_def)
  next
    case False
    have "wd \<noteq> []" "IsAbs (wd @ ''/'' @ p)" using assms(2) by (auto simp: IsAbs_def split: list.splits)
    then show ?thesis using assms False by (auto simp: Abs_def Join_def)
  qed
  then show ?thesis using Clean_idem_abs by (auto simp: Abs_def)
qed

lemma elems_append_slash: "elems (xs @ CHR ''/'' # ys) = elems xs @ elems ys"
proof (induction xs)
  case Nil
  then show ?case by simp
next
  case (Cons c xs)
  obtain e es where e: "elems xs = e # es" using elems_nonempty[of xs] by (cases "elems xs") auto
  show ?case using Cons e by simp
qed

lemma joinSlash_snoc:
  "bs \<noteq> [] \<Longrightarrow> joinSlash (bs @ [l]) = joinSlash bs @ CHR ''/'' # l"
  by (induction bs rule: joinSlash.induct) auto

lemma foldl_cleanStep_skip: "cleanStep r stk [] = stk"
  by (simp add: cleanStep_def)

lemma filter_normal: "\<forall>x\<in>set es. normalElem x \<Longrightarrow> filter (\<lambda>e. e \<noteq> []) es = es"
  by (induction es) (auto simp: normalElem_def)

lemma elems_rooted:
  assumes "\<forall>x\<in>set es. normalElem x"
  shows "filter (\<lambda>e. e \<noteq> []) (elems (CHR ''/'' # joinSlash es)) = es"
proof (cases "es = []")
  case True
  then show ?thesis by simp
next
  case False
  have "elems (joinSlash es) = es"
    using elems_joinSlash[OF False] assms by (simp add: normalElem_def)
  then show ?thesis using filter_normal[OF assms] by simp
qed

lemma ancestors_rooted:
  assumes "\<forall>x\<in>set es. normalElem x"
  shows "ancestors (CHR ''/'' # joinSlash es)
     = map (\<lambda>xs. CHR ''/'' # joinSlash xs) (butlast (prefixes es))"
  using elems_rooted[OF assms] Clean_rooted_normal[OF assms] by (simp add: ancestors_def)

lemma Split_rooted_snoc:
  assumes "CHR ''/'' \<notin> set l"
  shows "fst (Split (pre @ CHR ''/'' # l)) = pre @ ''/''"
proof -
  have "dropWhile (\<lambda>c. c \<noteq> CHR ''/'') (rev l @ CHR ''/'' # rev pre) = CHR ''/'' # rev pre"
    using assms by (simp add: dropWhile_append)
  then show ?thesis by (simp add: Split_def)
qed

lemma Dir_rooted:
  assumes "\<forall>x\<in>set bs. normalElem x" "normalElem l"
  shows "Dir (CHR ''/'' # joinSlash (bs @ [l])) = CHR ''/'' # joinSlash bs"
proof (cases "bs = []")
  case True
  have "fst (Split ([] @ CHR ''/'' # l)) = [] @ ''/''"
    by (rule Split_rooted_snoc) (use assms(2) in \<open>simp add: normalElem_def\<close>)
  then show ?thesis using True by (simp add: Dir_def Clean_def cleanStep_def)
next
  case False
  have nl: "CHR ''/'' \<notin> set l" using assms(2) by (simp add: normalElem_def)
  have "CHR ''/'' # joinSlash (bs @ [l]) = (CHR ''/'' # joinSlash bs) @ CHR ''/'' # l"
    using joinSlash_snoc[OF False] by simp
  then have sp: "fst (Split (CHR ''/'' # joinSlash (bs @ [l]))) = (CHR ''/'' # joinSlash bs) @ ''/''"
    using Split_rooted_snoc[OF nl, of "CHR ''/'' # joinSlash bs"] by simp
  have "elems (joinSlash bs) = bs"
    using elems_joinSlash[OF False] assms(1) by (simp add: normalElem_def)
  then have "elems ((CHR ''/'' # joinSlash bs) @ ''/'') = [] # bs @ [[]]"
    using elems_append_slash[of "joinSlash bs" "[]"] by simp
  then have "foldl (cleanStep True) [] (elems ((CHR ''/'' # joinSlash bs) @ ''/'')) = rev bs"
    using foldl_cleanStep_push[OF assms(1), of True "[]"]
    by (simp add: foldl_cleanStep_skip)
  then have "Clean ((CHR ''/'' # joinSlash bs) @ ''/'') = CHR ''/'' # joinSlash bs"
    by (simp add: Clean_def)
  then show ?thesis using sp by (simp add: Dir_def)
qed

lemma butlast_prefixes_snoc: "butlast (prefixes (bs @ [l])) = prefixes bs"
  by simp

lemma prefixes_butlast: "butlast (prefixes bs) @ [bs] = prefixes bs"
  by (cases bs rule: rev_cases) simp_all

text \<open>
  For a clean absolute path other than the root: its directory is clean, and the directories
  \<open>os.MkdirAll\<close> goes through for it are the directories above the path.
\<close>

lemma clean_abs_parents:
  assumes "IsAbs p" "Clean p = p" "p \<noteq> ''/''"
  shows "ancestors (Dir p) @ [Clean (Dir p)] = ancestors p \<and> Dir p \<in> set (ancestors p)"
proof -
  from Clean_rooted_form[OF assms(1)] assms(2) obtain es where
    es: "\<forall>x\<in>set es. normalElem x" "p = CHR ''/'' # joinSlash es" by auto
  have "es \<noteq> []" using es(2) assms(3) by auto
  then obtain bs l where bl: "es = bs @ [l]" by (cases es rule: rev_cases) auto
  have nb: "\<forall>x\<in>set bs. normalElem x" and nl: "normalElem l" using es(1) bl by auto
  have d: "Dir p = CHR ''/'' # joinSlash bs" using Dir_rooted[OF nb nl] es(2) bl by simp
  have cd: "Clean (Dir p) = Dir p" using d Clean_rooted_normal[OF nb] by simp
  have ap: "ancestors p = map (\<lambda>xs. CHR ''/'' # joinSlash xs) (prefixes bs)"
    using ancestors_rooted[OF es(1)] es(2) bl by simp
  have ad: "ancestors (Dir p) = map (\<lambda>xs. CHR ''/'' # joinSlash xs) (butlast (prefixes bs))"
    using ancestors_rooted[OF nb] d by simp
  have "ancestors (Dir p) @ [Clean (Dir p)]
      = map (\<lambda>xs. CHR ''/'' # joinSlash xs) (butlast (prefixes bs) @ [bs])"
    using ad cd d by simp
  also have "\<dots> = map (\<lambda>xs. CHR ''/'' # joinSlash xs) (prefixes bs)"
    by (simp only: prefixes_butlast)
  finally have one: "ancestors (Dir p) @ [Clean (Dir p)] = ancestors p"
    using ap by simp
  then have "Dir p \<in> set (ancestors p)" using cd by (metis in_set_conv_decomp)
  then show ?thesis using one by simp
qed


lemma Clean_trailing_slash:
  assumes "IsAbs wd" "Clean wd = wd"
  shows "Clean (wd @ ''/'') = wd"
proof -
  from Clean_rooted_form[OF assms(1)] assms(2) obtain es where
    es: "\<forall>x\<in>set es. normalElem x" "wd = CHR ''/'' # joinSlash es" by auto
  show ?thesis
  proof (cases "es = []")
    case True
    then show ?thesis using es(2) by (simp add: Clean_def cleanStep_def)
  next
    case False
    have "elems (joinSlash es) = es"
      using elems_joinSlash[OF False] es(1) by (simp add: normalElem_def)
    then have "elems ((CHR ''/'' # joinSlash es) @ ''/'') = [] # es @ [[]]"
      using elems_append_slash[of "joinSlash es" "[]"] by simp
    then have "foldl (cleanStep True) [] (elems ((CHR ''/'' # joinSlash es) @ ''/'')) = rev es"
      using foldl_cleanStep_push[OF es(1), of True "[]"] by (simp add: foldl_cleanStep_skip)
    then show ?thesis using es(2) by (simp add: Clean_def)
  qed
qed

text \<open>\<open>filepath.Abs("")\<close> is the working directory.\<close>

lemma Abs_empty: "IsAbs wd \<Longrightarrow> Clean wd = wd \<Longrightarrow> Abs (Some wd) [] = Some wd"
  using Clean_trailing_slash[of wd] by (auto simp: Abs_def Join_def IsAbs_def)

text \<open>
  The directory of a joined path: a clean absolute directory other than the root, joined
  with an ordinary name.
\<close>

lemma Dir_Join_normal:
  assumes "IsAbs d" "Clean d = d" "d \<noteq> ''/''" "normalElem b"
  shows "Dir (Clean (Join d b)) = d"
proof -
  from Clean_rooted_form[OF assms(1)] assms(2) obtain es where
    es: "\<forall>x\<in>set es. normalElem x" "d = CHR ''/'' # joinSlash es" by auto
  have ne: "es \<noteq> []" using es(2) assms(3) by auto
  have nes: "\<forall>x\<in>set (es @ [b]). normalElem x" using es(1) assms(4) by simp
  have dne: "d \<noteq> []" using es(2) by simp
  have "d @ ''/'' @ b = CHR ''/'' # joinSlash (es @ [b])"
    using joinSlash_snoc[OF ne] es(2) by simp
  then have j: "Join d b = CHR ''/'' # joinSlash (es @ [b])"
    using dne Clean_rooted_normal[OF nes] by (simp add: Join_def)
  have "Clean (Join d b) = CHR ''/'' # joinSlash (es @ [b])"
    unfolding j using Clean_rooted_normal[OF nes] .
  then show ?thesis using Dir_rooted[OF es(1) assms(4)] es(2) by simp
qed

lemma Abs_IsAbs:
  assumes "Abs (Some wd) p = Some a" "IsAbs wd"
  shows "IsAbs a"
proof -
  have "\<exists>q. IsAbs q \<and> a = Clean q"
  proof (cases "IsAbs p")
    case True
    then show ?thesis using assms by (auto simp: Abs_def)
  next
    case False
    have "wd \<noteq> []" "IsAbs (wd @ ''/'' @ p)" using assms(2) by (auto simp: IsAbs_def split: list.splits)
    then show ?thesis using assms False by (auto simp: Abs_def Join_def)
  qed
  then show ?thesis using Clean_idem_abs by auto
qed

lemma Dir_Join_clean:
  assumes "IsAbs d" "Clean d = d" "normalElem b"
  shows "Join d b = d @ (if d = ''/'' then [] else ''/'') @ b \<and> Dir (Clean (Join d b)) = d"
proof (cases "d = ''/''")
  case True
  have nb: "\<forall>x\<in>set [b]. normalElem x" using assms(3) by simp
  have eb: "elems b = [b]" using assms(3) by (simp add: elems_no_slash_id normalElem_def)
  have "foldl (cleanStep True) [] (elems (''//'' @ b)) = [b]"
    using eb assms(3) by (simp add: cleanStep_def normalElem_def)
  then have c: "Clean (''//'' @ b) = CHR ''/'' # b" by (simp add: Clean_def)
  then have j: "Join d b = CHR ''/'' # b" using True by (simp add: Join_def)
  have "Clean (CHR ''/'' # joinSlash [b]) = CHR ''/'' # joinSlash [b]"
    using Clean_rooted_normal[OF nb] .
  moreover have "Dir (CHR ''/'' # joinSlash ([] @ [b])) = CHR ''/'' # joinSlash []"
    by (rule Dir_rooted) (use assms(3) in simp_all)
  ultimately show ?thesis using j True by simp
next
  case False
  have "Dir (Clean (Join d b)) = d" using Dir_Join_normal[OF assms(1,2) False assms(3)] .
  moreover have "Join d b = d @ ''/'' @ b"
  proof -
    from Clean_rooted_form[OF assms(1)] assms(2) obtain es where
      es: "\<forall>x\<in>set es. normalElem x" "d = CHR ''/'' # joinSlash es" by auto
    have ne: "es \<noteq> []" using es(2) False by auto
    have nes: "\<forall>x\<in>set (es @ [b]). normalElem x" using es(1) assms(3) by simp
    have "d @ ''/'' @ b = CHR ''/'' # joinSlash (es @ [b])"
      using joinSlash_snoc[OF ne] es(2) by simp
    then show ?thesis using Clean_rooted_normal[OF nes] es(2) by (simp add: Join_def)
  qed
  ultimately show ?thesis using False by simp
qed

lemma rooted_concat:
  "es \<noteq> [] \<Longrightarrow> CHR ''/'' # joinSlash es = concat (map (\<lambda>e. CHR ''/'' # e) es)"
  by (induction es rule: joinSlash.induct) auto

lemma drop_concat_slash:
  "\<forall>x\<in>set es. normalElem x \<Longrightarrow>
   \<exists>u es'. drop j (concat (map (\<lambda>e. CHR ''/'' # e) es)) = u @ concat (map (\<lambda>e. CHR ''/'' # e) es')
      \<and> CHR ''/'' \<notin> set u \<and> (\<forall>x\<in>set es'. normalElem x)"
proof (induction es arbitrary: j)
  case Nil
  have "drop j (concat (map (\<lambda>e. CHR ''/'' # e) [])) = [] @ concat (map (\<lambda>e. CHR ''/'' # e) [])"
    by simp
  then show ?case by (metis empty_iff list.set(1))
next
  case (Cons e es)
  let ?rest = "concat (map (\<lambda>e. CHR ''/'' # e) es)"
  have ne: "CHR ''/'' \<notin> set e" using Cons.prems by (simp add: normalElem_def)
  consider "j = 0" | "0 < j" "j \<le> Suc (length e)" | "j > Suc (length e)" by linarith
  then show ?case
  proof cases
    case 1
    then have "drop j (concat (map (\<lambda>e. CHR ''/'' # e) (e # es)))
        = [] @ concat (map (\<lambda>e. CHR ''/'' # e) (e # es))" by simp
    then show ?thesis using Cons.prems by (metis empty_iff list.set(1))
  next
    case 2
    then obtain j' where j': "j = Suc j'" "j' \<le> length e" by (cases j) auto
    have "drop j (concat (map (\<lambda>e. CHR ''/'' # e) (e # es))) = drop j' e @ ?rest"
      using j' by simp
    moreover have "CHR ''/'' \<notin> set (drop j' e)" using ne by (meson in_set_dropD)
    ultimately show ?thesis using Cons.prems by auto
  next
    case 3
    then have "drop j (concat (map (\<lambda>e. CHR ''/'' # e) (e # es)))
        = drop (j - Suc (length e)) ?rest" by (cases j) auto
    then show ?thesis using Cons.IH[of "j - Suc (length e)"] Cons.prems by auto
  qed
qed

lemma normalElem_append: "normalElem l \<Longrightarrow> CHR ''/'' \<notin> set u \<Longrightarrow> normalElem (l @ u)"
proof -
  assume l: "normalElem l" and u: "CHR ''/'' \<notin> set u"
  obtain a l' where al: "l = a # l'" using l by (cases l) (auto simp: normalElem_def)
  show ?thesis
  proof (cases u)
    case Nil
    then show ?thesis using l by simp
  next
    case (Cons b u')
    show ?thesis
    proof (cases l')
      case Nil
      then have "a \<noteq> CHR ''.''" using l al by (simp add: normalElem_def)
      then show ?thesis using al Nil u l by (auto simp: normalElem_def)
    next
      case (Cons c l'')
      then show ?thesis using al u l \<open>u = b # u'\<close> by (auto simp: normalElem_def)
    qed
  qed
qed

text \<open>
  A clean absolute path other than the root, followed by what is left of a clean absolute
  path after some of its bytes, is a clean path.
\<close>

lemma clean_prefix_swap:
  assumes "IsAbs newP" "Clean newP = newP" "newP \<noteq> ''/''"
    and "IsAbs d" "Clean d = d" "0 < k"
  shows "Clean (newP @ drop k d) = newP @ drop k d"
proof -
  from Clean_rooted_form[OF assms(1)] assms(2) obtain ns0 where
    ns0: "\<forall>x\<in>set ns0. normalElem x" "newP = CHR ''/'' # joinSlash ns0" by auto
  have "ns0 \<noteq> []" using ns0(2) assms(3) by auto
  then obtain ns l where nl: "ns0 = ns @ [l]" by (cases ns0 rule: rev_cases) auto
  have nns: "\<forall>x\<in>set ns. normalElem x" and nl': "normalElem l" using ns0(1) nl by auto
  from Clean_rooted_form[OF assms(4)] assms(5) obtain ds where
    ds: "\<forall>x\<in>set ds. normalElem x" "d = CHR ''/'' # joinSlash ds" by auto
  show ?thesis
  proof (cases "ds = []")
    case True
    then have "drop k d = []" using ds(2) assms(6) by simp
    then show ?thesis using assms(2) by simp
  next
    case False
    have dd: "d = concat (map (\<lambda>e. CHR ''/'' # e) ds)" using rooted_concat[OF False] ds(2) by simp
    from drop_concat_slash[OF ds(1), of k] obtain u es' where
      u: "drop k (concat (map (\<lambda>e. CHR ''/'' # e) ds)) = u @ concat (map (\<lambda>e. CHR ''/'' # e) es')"
        "CHR ''/'' \<notin> set u" "\<forall>x\<in>set es'. normalElem x" by blast
    let ?es = "ns @ [l @ u] @ es'"
    have nes: "\<forall>x\<in>set ?es. normalElem x"
      using nns u(3) normalElem_append[OF nl' u(2)] by auto
    have "newP = concat (map (\<lambda>e. CHR ''/'' # e) (ns @ [l]))"
      using rooted_concat[of "ns @ [l]"] ns0(2) nl by simp
    then have "newP @ drop k d = concat (map (\<lambda>e. CHR ''/'' # e) ?es)"
      using u(1) dd by simp
    also have "\<dots> = CHR ''/'' # joinSlash ?es" using rooted_concat[of ?es] by simp
    finally have "newP @ drop k d = CHR ''/'' # joinSlash ?es" .
    then show ?thesis using Clean_rooted_normal[OF nes] by simp
  qed
qed

lemma Split_IsAbs: "IsAbs x \<Longrightarrow> IsAbs (fst (Split x))"
proof -
  assume "IsAbs x"
  then obtain r where x: "x = CHR ''/'' # r" by (auto simp: IsAbs_def split: list.splits)
  let ?P = "\<lambda>c. c \<noteq> CHR ''/''"
  have "\<exists>zs. dropWhile ?P (rev r @ [CHR ''/'']) = zs @ [CHR ''/'']"
    by (cases "\<forall>c\<in>set (rev r). ?P c") (auto simp: dropWhile_append)
  then obtain zs where "dropWhile ?P (rev x) = zs @ [CHR ''/'']" using x by auto
  then show ?thesis by (simp add: Split_def IsAbs_def)
qed

lemma Dir_clean_abs: "IsAbs x \<Longrightarrow> IsAbs (Dir x) \<and> Clean (Dir x) = Dir x"
  using Clean_idem_abs[OF Split_IsAbs] by (simp add: Dir_def)

lemma Abs_clean:
  assumes "Abs (Some wd) p = Some a" "IsAbs wd"
  shows "Clean a = a"
proof -
  have "\<exists>q. IsAbs q \<and> a = Clean q"
  proof (cases "IsAbs p")
    case True
    then show ?thesis using assms by (auto simp: Abs_def)
  next
    case False
    have "wd \<noteq> []" "IsAbs (wd @ ''/'' @ p)" using assms(2) by (auto simp: IsAbs_def split: list.splits)
    then show ?thesis using assms False by (auto simp: Abs_def Join_def)
  qed
  then show ?thesis using Clean_idem_abs by auto
qed

section \<open>The path mapping\<close>

lemma convertDir_prefix:
  "origP \<noteq> [] \<Longrightarrow> newP \<noteq> [] \<Longrightarrow> prefix origP inputDir \<Longrightarrow>
   convertDir origP newP inputDir = Inr (newP @ drop (length origP) inputDir)"
  by (auto simp: convertDir_def HasPrefix_def prefix_def)

lemma convertDir_whole:
  "origP \<noteq> [] \<Longrightarrow> newP \<noteq> [] \<Longrightarrow> convertDir origP newP origP = Inr newP"
  by (simp add: convertDir_def HasPrefix_def)

text \<open>The branch meant for absent prefixes: it needs an empty absolute prefix.\<close>

lemma convertDir_absent:
  "origP = [] \<or> newP = [] \<Longrightarrow> convertDir origP newP inputDir = Inr inputDir"
  by (auto simp: convertDir_def)

lemma convertDir_mismatch:
  "origP \<noteq> [] \<Longrightarrow> newP \<noteq> [] \<Longrightarrow> \<not> prefix origP inputDir \<Longrightarrow>
   convertDir origP newP inputDir = Inl (FatalNotUnder inputDir origP)"
  by (simp add: convertDir_def HasPrefix_def)

text \<open>The template path the mapping works on: the scanned path, or else \<open>-in\<close> made absolute.\<close>

lemma convertParts_resolved:
  "(if scannedPath = [] then Abs cwd (inp f) else Some scannedPath) = Some sp \<Longrightarrow>
   scannedPath \<noteq> [] \<or> inp f \<noteq> [] \<Longrightarrow>
   origParentAbs cwd f = Inr origP \<Longrightarrow> newParentAbs cwd f = Inr newP \<Longrightarrow>
   convertParts cwd f scannedPath =
     (case convertDir origP newP (Dir (Clean sp)) of
        Inl e \<Rightarrow> Inl e
      | Inr outputDir \<Rightarrow> Inr (Some (Dir (Clean sp), Base (Clean sp), outputDir)))"
  by (auto simp: convertParts_def Let_def)

lemma origParentAbs_nonempty:
  "origParentAbs cwd f = Inr origP \<Longrightarrow> origParent f \<noteq> [] \<Longrightarrow> origP \<noteq> []"
  using Abs_nonempty[of cwd "origParent f"] by (auto simp: origParentAbs_def split: option.splits)

lemma newParentAbs_nonempty:
  "newParentAbs cwd f = Inr newP \<Longrightarrow> newParent f \<noteq> [] \<Longrightarrow> newP \<noteq> []"
  using Abs_nonempty[of cwd "newParent f"] by (auto simp: newParentAbs_def split: option.splits)

text \<open>
  C2: when an original and a new prefix are both configured and the directory of the
  template path does not start with the (absolute) original prefix, \<open>convertOutputPath\<close>
  ends the run with \<open>log.Fatalf\<close>; it returns no output path at all.
\<close>

theorem convertOutputPath_not_under_fatal:
  assumes "origParent f \<noteq> []" and "newParent f \<noteq> []"
    and "origParentAbs cwd f = Inr origP" and "newParentAbs cwd f = Inr newP"
    and "(if scannedPath = [] then Abs cwd (inp f) else Some scannedPath) = Some sp"
    and "scannedPath \<noteq> [] \<or> inp f \<noteq> []"
    and "\<not> HasPrefix (Dir (Clean sp)) origP"
  shows "convertOutputPath cwd f scannedPath = Inl (FatalNotUnder (Dir (Clean sp)) origP)"
proof -
  have ne: "origP \<noteq> []" "newP \<noteq> []"
    using assms origParentAbs_nonempty newParentAbs_nonempty by blast+
  have "convertDir origP newP (Dir (Clean sp)) = Inl (FatalNotUnder (Dir (Clean sp)) origP)"
    using convertDir_mismatch[OF ne] assms(7) by (simp add: HasPrefix_def)
  then show ?thesis
    using convertParts_resolved[OF assms(5) assms(6) assms(3) assms(4)]
    by (simp add: convertOutputPath_def)
qed

theorem convertOutputPath_not_under_fatal_witness:
  "convertOutputPath (Some ''/home/u'')
     (defaultFlags\<lparr>scan := True, origParent := ''/srv/tmpl'', newParent := ''/etc''\<rparr>)
     ''/home/u/a.tmpl'' = Inl (FatalNotUnder ''/home/u'' ''/srv/tmpl'')"
proof -
  let ?f = "defaultFlags\<lparr>scan := True, origParent := ''/srv/tmpl'', newParent := ''/etc''\<rparr>"
  have h1: "origParent ?f \<noteq> []" and h2: "newParent ?f \<noteq> []" by simp_all
  have h3: "origParentAbs (Some ''/home/u'') ?f = Inr ''/srv/tmpl''" by code_simp
  have h4: "newParentAbs (Some ''/home/u'') ?f = Inr ''/etc''" by code_simp
  have h5: "(if ''/home/u/a.tmpl'' = [] then Abs (Some ''/home/u'') (inp ?f)
             else Some ''/home/u/a.tmpl'') = Some ''/home/u/a.tmpl''" by simp
  have h6: "''/home/u/a.tmpl'' \<noteq> [] \<or> inp ?f \<noteq> []" by simp
  have d: "Dir (Clean ''/home/u/a.tmpl'') = ''/home/u''" by code_simp
  have h7: "\<not> HasPrefix (Dir (Clean ''/home/u/a.tmpl'')) ''/srv/tmpl''"
    unfolding d by code_simp
  show ?thesis
    using convertOutputPath_not_under_fatal[OF h1 h2 h3 h4 h5 h6 h7] unfolding d .
qed

text \<open>
  With neither prefix given, a template whose directory does not start with the working
  directory aborts the run.
\<close>

lemma absent_prefixes_fatal:
  assumes "IsAbs wd" "Clean wd = wd" "origParent f = []" "newParent f = []"
    and "(if scannedPath = [] then Abs (Some wd) (inp f) else Some scannedPath) = Some sp"
    and "scannedPath \<noteq> [] \<or> inp f \<noteq> []"
    and "\<not> prefix wd (Dir (Clean sp))"
  shows "convertOutputPath (Some wd) f scannedPath = Inl (FatalNotUnder (Dir (Clean sp)) wd)"
proof -
  have a: "Abs (Some wd) [] = Some wd" using Abs_empty[OF assms(1,2)] .
  have o: "origParentAbs (Some wd) f = Inr wd" and n: "newParentAbs (Some wd) f = Inr wd"
    using a assms(3,4) by (simp_all add: origParentAbs_def newParentAbs_def)
  have ne: "wd \<noteq> []" using assms(1) by (auto simp: IsAbs_def)
  have "convertDir wd wd (Dir (Clean sp)) = Inl (FatalNotUnder (Dir (Clean sp)) wd)"
    using convertDir_mismatch[OF ne ne assms(7)] .
  then show ?thesis
    using convertParts_resolved[OF assms(5) assms(6) o n] by (simp add: convertOutputPath_def)
qed

text \<open>
  C3 (the code at the failing inputs): with neither prefix given, both absolute prefixes are
  the working directory (\<open>filepath.Abs("")\<close>), so the guard for absent prefixes never
  applies. A template outside the working directory, given with \<open>-in\<close>, aborts the run
  instead of being mapped in place; and with only \<open>-orig\<close> given, the output directory is
  the working directory followed by the remainder, not the input directory.
\<close>

theorem convertOutputPath_absent_prefix:
  "origParentAbs (Some ''/home/u'') (defaultFlags\<lparr>inp := ''/etc/motd.tmpl''\<rparr>) = Inr ''/home/u'' \<and>
   convertOutputPath (Some ''/home/u'') (defaultFlags\<lparr>inp := ''/etc/motd.tmpl''\<rparr>) []
     = Inl (FatalNotUnder ''/etc'' ''/home/u'') \<and>
   Dir (Clean ''/home/u/dots/a.tmpl'') = ''/home/u/dots'' \<and>
   outputDirOf (Some ''/home/u/dots'')
     (defaultFlags\<lparr>scan := True, origParent := ''/home/u''\<rparr>) ''/home/u/dots/a.tmpl''
     = Inr (Some ''/home/u/dots/dots'')"
  by code_simp

text \<open>
  C5 (counterexample): with the new prefix \<open>/\<close>, the template \<open>/a/b/x.tmpl\<close> under the
  original prefix \<open>/a\<close> gets the output directory \<open>//b\<close> and is mapped to \<open>/b/x\<close>
  (\<open>path.Join\<close> cleans the path), whose directory is \<open>/b\<close>; mapping \<open>/b/x\<close> back with
  the prefixes swapped gives the directory \<open>/ab\<close>, not \<open>/a/b\<close>. And the template
  \<open>/a/b/.tmpl\<close>, whose name strips to nothing, is mapped with the new prefix \<open>/x\<close> to
  \<open>/x/b\<close>, which maps back to the directory \<open>/a\<close>.
\<close>

theorem convertOutputPath_roundtrip_counterexample:
  "Dir (Clean ''/a/b/x.tmpl'') = ''/a/b'' \<and> strict_prefix ''/a'' ''/a/b'' \<and>
   outputDirOf (Some ''/w'') (defaultFlags\<lparr>scan := True, origParent := ''/a'', newParent := ''/''\<rparr>)
     ''/a/b/x.tmpl'' = Inr (Some ''//b'') \<and>
   convertOutputPath (Some ''/w'') (defaultFlags\<lparr>scan := True, origParent := ''/a'', newParent := ''/''\<rparr>)
     ''/a/b/x.tmpl'' = Inr ''/b/x'' \<and>
   Dir (Clean ''/b/x'') = ''/b'' \<and>
   outputDirOf (Some ''/w'') (defaultFlags\<lparr>scan := True, origParent := ''/'', newParent := ''/a''\<rparr>)
     ''/b/x'' = Inr (Some ''/ab'') \<and>
   Dir (Clean ''/a/b/.tmpl'') = ''/a/b'' \<and>
   convertOutputPath (Some ''/w'') (defaultFlags\<lparr>scan := True, origParent := ''/a'', newParent := ''/x''\<rparr>)
     ''/a/b/.tmpl'' = Inr ''/x/b'' \<and>
   outputDirOf (Some ''/w'') (defaultFlags\<lparr>scan := True, origParent := ''/x'', newParent := ''/a''\<rparr>)
     ''/x/b'' = Inr (Some ''/a'')"
  by code_simp

lemma Join_nonempty: "a \<noteq> [] \<Longrightarrow> Join a b \<noteq> []"
  using Clean_nonempty by (simp add: Join_def)

lemma origParentAbs_swap:
  assumes "newParentAbs (Some wd) f = Inr newP" "IsAbs wd"
  shows "origParentAbs cwd' (f\<lparr>origParent := newP, newParent := origP\<rparr>) = Inr newP"
proof -
  have "Abs (Some wd) (newParent f) = Some newP"
    using assms(1) by (auto simp: newParentAbs_def split: option.splits)
  then have "Abs cwd' newP = Some newP" using Abs_idem assms(2) by blast
  then show ?thesis by (simp add: origParentAbs_def)
qed

lemma newParentAbs_swap:
  assumes "origParentAbs (Some wd) f = Inr origP" "IsAbs wd"
  shows "newParentAbs cwd' (f\<lparr>origParent := newP, newParent := origP\<rparr>) = Inr origP"
proof -
  have "Abs (Some wd) (origParent f) = Some origP"
    using assms(1) by (auto simp: origParentAbs_def split: option.splits)
  then have "Abs cwd' origP = Some origP" using Abs_idem assms(2) by blast
  then show ?thesis by (simp add: newParentAbs_def)
qed

lemma Abs_wd_nonempty: "Abs (Some wd) p = Some a \<Longrightarrow> IsAbs wd \<Longrightarrow> a \<noteq> []"
  using Clean_nonempty by (auto simp: Abs_def Join_def IsAbs_def split: if_splits list.splits)

lemma roundtrip_core:
  assumes wd: "IsAbs wd"
    and o: "origParentAbs (Some wd) f = Inr origP" and n: "newParentAbs (Some wd) f = Inr newP"
    and sp: "scannedPath \<noteq> []"
    and pre: "prefix origP (Dir (Clean scannedPath))"
    and res: "convertOutputPath (Some wd) f scannedPath = Inr outputPath"
    and dir: "Dir (Clean outputPath) = newP @ drop (length origP) (Dir (Clean scannedPath))"
  shows "outputDirOf (Some wd) f scannedPath
           = Inr (Some (newP @ drop (length origP) (Dir (Clean scannedPath)))) \<and>
         outputDirOf (Some wd) (f\<lparr>origParent := newP, newParent := origP\<rparr>) outputPath
           = Inr (Some (Dir (Clean scannedPath)))"
proof -
  let ?d = "Dir (Clean scannedPath)"
  let ?f' = "f\<lparr>origParent := newP, newParent := origP\<rparr>"
  have ne: "origP \<noteq> []" "newP \<noteq> []"
    using o n wd Abs_wd_nonempty
    by (auto simp: origParentAbs_def newParentAbs_def split: option.splits)
  have cd: "convertDir origP newP ?d = Inr (newP @ drop (length origP) ?d)"
    using convertDir_prefix[OF ne pre] .
  have parts: "convertParts (Some wd) f scannedPath
      = Inr (Some (?d, Base (Clean scannedPath), newP @ drop (length origP) ?d))"
    using convertParts_resolved[of scannedPath "Some wd" f scannedPath origP newP] sp o n cd
    by simp
  then have first: "outputDirOf (Some wd) f scannedPath = Inr (Some (newP @ drop (length origP) ?d))"
    by (simp add: outputDirOf_def)
  have "outputPath = Join (newP @ drop (length origP) ?d) (stripTempl (Base (Clean scannedPath)))"
    using res parts by (simp add: convertOutputPath_def)
  then have op: "outputPath \<noteq> []" using Join_nonempty ne by simp
  have o': "origParentAbs (Some wd) ?f' = Inr newP" using origParentAbs_swap[OF n wd] .
  have n': "newParentAbs (Some wd) ?f' = Inr origP" using newParentAbs_swap[OF o wd] .
  have "convertDir newP origP (Dir (Clean outputPath)) = Inr (origP @ drop (length origP) ?d)"
    using convertDir_prefix[OF ne(2) ne(1), of "Dir (Clean outputPath)"] dir by simp
  moreover have "origP @ drop (length origP) ?d = ?d"
    using pre by (auto simp: prefix_def)
  ultimately have "convertDir newP origP (Dir (Clean outputPath)) = Inr ?d" by simp
  then have "outputDirOf (Some wd) ?f' outputPath = Inr (Some ?d)"
    using convertParts_resolved[of outputPath "Some wd" ?f' outputPath newP origP] op o' n'
    by (simp add: outputDirOf_def)
  then show ?thesis using first by simp
qed

text \<open>
  C5 (amended): for an absolute template path whose directory starts with the original
  prefix, the output directory the mapping computes (the value it joins with the stripped
  name) is the new prefix followed by the remainder of the input directory. That string is a
  clean path whenever the new prefix is not the root. When it is a clean path and the
  stripped base name is an ordinary file name, the returned output path lies in exactly that
  directory, and mapping the returned path with the two prefixes swapped gives the input
  directory back.
\<close>

theorem convertOutputPath_roundtrip:
  assumes wd: "IsAbs wd"
    and o: "origParentAbs (Some wd) f = Inr origP" and n: "newParentAbs (Some wd) f = Inr newP"
    and sp: "IsAbs scannedPath"
    and pre: "prefix origP (Dir (Clean scannedPath))"
  shows "outputDirOf (Some wd) f scannedPath
           = Inr (Some (newP @ drop (length origP) (Dir (Clean scannedPath)))) \<and>
         (newP \<noteq> ''/'' \<longrightarrow>
            Clean (newP @ drop (length origP) (Dir (Clean scannedPath)))
              = newP @ drop (length origP) (Dir (Clean scannedPath))) \<and>
         (Clean (newP @ drop (length origP) (Dir (Clean scannedPath)))
              = newP @ drop (length origP) (Dir (Clean scannedPath)) \<and>
          normalElem (stripTempl (Base (Clean scannedPath))) \<longrightarrow>
            (\<exists>outputPath.
               convertOutputPath (Some wd) f scannedPath = Inr outputPath \<and>
               Dir (Clean outputPath) = newP @ drop (length origP) (Dir (Clean scannedPath)) \<and>
               outputDirOf (Some wd) (f\<lparr>origParent := newP, newParent := origP\<rparr>) outputPath
                 = Inr (Some (Dir (Clean scannedPath)))))"
proof -
  let ?d = "Dir (Clean scannedPath)"
  let ?od = "newP @ drop (length origP) ?d"
  let ?outp = "Join ?od (stripTempl (Base (Clean scannedPath)))"
  have spn: "scannedPath \<noteq> []" using sp by (auto simp: IsAbs_def)
  have ne: "origP \<noteq> []" "newP \<noteq> []"
    using o n wd Abs_wd_nonempty
    by (auto simp: origParentAbs_def newParentAbs_def split: option.splits)
  have an: "Abs (Some wd) (newParent f) = Some newP"
    using n by (auto simp: newParentAbs_def split: option.splits)
  have nabs: "IsAbs newP" and ncl: "Clean newP = newP"
    using Abs_IsAbs[OF an wd] Abs_clean[OF an wd] by simp_all
  have ab: "IsAbs ?od" using nabs by (auto simp: IsAbs_def split: list.splits)
  have cd: "convertDir origP newP ?d = Inr ?od" using convertDir_prefix[OF ne pre] .
  have parts: "convertParts (Some wd) f scannedPath
      = Inr (Some (?d, Base (Clean scannedPath), ?od))"
    using convertParts_resolved[of scannedPath "Some wd" f scannedPath origP newP] spn o n cd
    by simp
  then have first: "outputDirOf (Some wd) f scannedPath = Inr (Some ?od)"
    by (simp add: outputDirOf_def)
  have res: "convertOutputPath (Some wd) f scannedPath = Inr ?outp"
    using parts by (simp add: convertOutputPath_def)
  have dabs: "IsAbs ?d" "Clean ?d = ?d"
    using Dir_clean_abs[of "Clean scannedPath"] Clean_idem_abs[OF sp] by simp_all
  have second: "newP \<noteq> ''/'' \<Longrightarrow> Clean ?od = ?od"
    using clean_prefix_swap[OF nabs ncl _ dabs] ne(1) by simp
  have third: "\<exists>outputPath.
       convertOutputPath (Some wd) f scannedPath = Inr outputPath \<and>
       Dir (Clean outputPath) = ?od \<and>
       outputDirOf (Some wd) (f\<lparr>origParent := newP, newParent := origP\<rparr>) outputPath
         = Inr (Some ?d)"
    if cl: "Clean ?od = ?od" and nm: "normalElem (stripTempl (Base (Clean scannedPath)))"
  proof -
    have dir: "Dir (Clean ?outp) = ?od" using Dir_Join_clean[OF ab cl nm] by (rule conjunct2)
    show ?thesis using roundtrip_core[OF wd o n spn pre res dir] res dir by blast
  qed
  show ?thesis using first second third by blast
qed

theorem convertOutputPath_roundtrip_witness:
  "outputDirOf (Some ''/w'')
     (defaultFlags\<lparr>scan := True, origParent := ''/a'', newParent := ''/x''\<rparr>) ''/a/b/c.tmpl''
     = Inr (Some ''/x/b'') \<and>
   Clean ''/x/b'' = ''/x/b'' \<and>
   convertOutputPath (Some ''/w'')
     (defaultFlags\<lparr>scan := True, origParent := ''/a'', newParent := ''/x''\<rparr>) ''/a/b/c.tmpl''
     = Inr ''/x/b/c'' \<and>
   Dir (Clean ''/x/b/c'') = ''/x/b'' \<and>
   outputDirOf (Some ''/w'')
     (defaultFlags\<lparr>scan := True, origParent := ''/x'', newParent := ''/a''\<rparr>) ''/x/b/c''
     = Inr (Some ''/a/b'')"
proof -
  let ?f = "defaultFlags\<lparr>scan := True, origParent := ''/a'', newParent := ''/x''\<rparr>"
  have wd: "IsAbs ''/w''" by code_simp
  have o: "origParentAbs (Some ''/w'') ?f = Inr ''/a''" by code_simp
  have n: "newParentAbs (Some ''/w'') ?f = Inr ''/x''" by code_simp
  have sp: "IsAbs ''/a/b/c.tmpl''" by code_simp
  have d: "Dir (Clean ''/a/b/c.tmpl'') = ''/a/b''" by code_simp
  have pre: "prefix ''/a'' (Dir (Clean ''/a/b/c.tmpl''))" unfolding d by simp
  have od: "''/x'' @ drop (length ''/a'') ''/a/b'' = ''/x/b''" by simp
  have nr: "''/x'' \<noteq> ''/''" by simp
  have nm: "normalElem (stripTempl (Base (Clean ''/a/b/c.tmpl'')))" by code_simp
  have sw: "?f\<lparr>origParent := ''/x'', newParent := ''/a''\<rparr>
      = defaultFlags\<lparr>scan := True, origParent := ''/x'', newParent := ''/a''\<rparr>" by simp
  have res: "convertOutputPath (Some ''/w'') ?f ''/a/b/c.tmpl'' = Inr ''/x/b/c''" by code_simp
  note t = convertOutputPath_roundtrip[OF wd o n sp pre, unfolded d od]
  have one: "outputDirOf (Some ''/w'') ?f ''/a/b/c.tmpl'' = Inr (Some ''/x/b'')"
    using t by blast
  have cl: "Clean ''/x/b'' = ''/x/b''" using t nr by blast
  from t cl nm obtain outputPath where
    r: "convertOutputPath (Some ''/w'') ?f ''/a/b/c.tmpl'' = Inr outputPath"
      "Dir (Clean outputPath) = ''/x/b''"
      "outputDirOf (Some ''/w'') (?f\<lparr>origParent := ''/x'', newParent := ''/a''\<rparr>) outputPath
        = Inr (Some ''/a/b'')"
    by blast
  have "outputPath = ''/x/b/c''" using r(1) res by simp
  then show ?thesis using r res one cl unfolding sw by simp
qed

lemma Dir_nonempty: "Dir p \<noteq> []"
  by (simp add: Dir_def Clean_nonempty)

lemma convertDir_nonempty:
  "convertDir origP newP inputDir = Inr d \<Longrightarrow> inputDir \<noteq> [] \<Longrightarrow> d \<noteq> []"
  by (auto simp: convertDir_def Let_def split: if_splits)

lemma convertParts_outputDir:
  "scannedPath \<noteq> [] \<Longrightarrow> convertParts cwd f scannedPath = Inr x \<Longrightarrow>
   \<exists>inputBase origP newP outputDir.
     x = Some (Dir (Clean scannedPath), inputBase, outputDir) \<and>
     origParentAbs cwd f = Inr origP \<and> newParentAbs cwd f = Inr newP \<and>
     convertDir origP newP (Dir (Clean scannedPath)) = Inr outputDir"
  by (auto simp: convertParts_def Let_def split: sum.splits)

lemma convertOutputPath_nonempty:
  assumes "scannedPath \<noteq> []" "convertOutputPath cwd f scannedPath = Inr outputPath"
  shows "outputPath \<noteq> []"
proof -
  from assms(2) obtain x where x: "convertParts cwd f scannedPath = Inr x"
    by (auto simp: convertOutputPath_def split: sum.splits)
  from convertParts_outputDir[OF assms(1) x] obtain inputBase origP newP outputDir where
    xs: "x = Some (Dir (Clean scannedPath), inputBase, outputDir)"
    and cd: "convertDir origP newP (Dir (Clean scannedPath)) = Inr outputDir" by blast
  have "outputDir \<noteq> []" using convertDir_nonempty[OF cd] Dir_nonempty by blast
  moreover have "outputPath = Join outputDir (stripTempl inputBase)"
    using assms(2) x xs by (simp add: convertOutputPath_def)
  ultimately show ?thesis using Join_nonempty by simp
qed

text \<open>The output path of a scanned entry is a clean absolute path.\<close>

lemma convertOutputPath_clean_abs:
  assumes "IsAbs wd" "scannedPath \<noteq> []"
    and "convertOutputPath (Some wd) f scannedPath = Inr outputPath"
  shows "IsAbs outputPath \<and> Clean outputPath = outputPath"
proof -
  from assms(3) obtain x where x: "convertParts (Some wd) f scannedPath = Inr x"
    by (auto simp: convertOutputPath_def split: sum.splits)
  from convertParts_outputDir[OF assms(2) x] obtain inputBase origP newP outputDir where
    xs: "x = Some (Dir (Clean scannedPath), inputBase, outputDir)"
    and o: "origParentAbs (Some wd) f = Inr origP" and n: "newParentAbs (Some wd) f = Inr newP"
    and cd: "convertDir origP newP (Dir (Clean scannedPath)) = Inr outputDir" by blast
  have an: "Abs (Some wd) (newParent f) = Some newP"
    using n by (auto simp: newParentAbs_def split: option.splits)
  have ao: "Abs (Some wd) (origParent f) = Some origP"
    using o by (auto simp: origParentAbs_def split: option.splits)
  have ne: "origP \<noteq> []" "newP \<noteq> []"
    using Abs_wd_nonempty[OF ao assms(1)] Abs_wd_nonempty[OF an assms(1)] by simp_all
  have "IsAbs newP" using Abs_IsAbs[OF an assms(1)] .
  moreover have "\<exists>r. outputDir = newP @ r"
    using cd ne by (auto simp: convertDir_def Let_def split: if_splits)
  ultimately have od: "IsAbs outputDir" by (auto simp: IsAbs_def split: list.splits)
  then have "outputDir \<noteq> []" "IsAbs (outputDir @ ''/'' @ stripTempl inputBase)"
    by (auto simp: IsAbs_def split: list.splits)
  moreover have "outputPath = Join outputDir (stripTempl inputBase)"
    using assms(3) x xs by (simp add: convertOutputPath_def)
  ultimately show ?thesis
    using Clean_idem_abs[of "outputDir @ ''/'' @ stripTempl inputBase"] by (simp add: Join_def)
qed

section \<open>Change classification\<close>

lemma getExisting_missing:
  "outputPath \<noteq> [] \<Longrightarrow> lookup w outputPath = Inl e \<Longrightarrow>
   getExistingOutputFileContents w outputPath = Inr (Inl e)"
  by (simp add: getExistingOutputFileContents_def os_Open_def)

lemma getExisting_readable:
  "outputPath \<noteq> [] \<Longrightarrow> lookup w outputPath = Inr (File c m) \<Longrightarrow> readable m \<Longrightarrow>
   getExistingOutputFileContents w outputPath = Inr (Inr (Some c))"
  by (simp add: getExistingOutputFileContents_def os_Open_def readAll_def bufReadFrom_def)

lemma getExisting_unreadable:
  "outputPath \<noteq> [] \<Longrightarrow> lookup w outputPath = Inr (File c m) \<Longrightarrow> \<not> readable m \<Longrightarrow>
   getExistingOutputFileContents w outputPath = Inr (Inl EACCES)"
  by (simp add: getExistingOutputFileContents_def os_Open_def)

lemma getExisting_directory:
  "outputPath \<noteq> [] \<Longrightarrow> lookup w outputPath = Inr (Directory dm) \<Longrightarrow>
   getExistingOutputFileContents w outputPath = Inr (Inl EISDIR)"
  by (simp add: getExistingOutputFileContents_def os_Open_def readAll_def)

text \<open>
  C1 (counterexample): the output file \<open>/h/a\<close> exists and holds exactly the rendered bytes,
  but it cannot be read (mode \<open>0200\<close>); the mode is \<open>CREATE\<close>, not \<open>KEEP\<close>.
\<close>

theorem classify_unreadable_counterexample:
  "map_of (files \<lparr>files = [(''/'', Directory 493), (''/h'', Directory 493),
                           (''/h/a'', File ''same'' 128)],
                  workDir = ''/h'', umask = 18, diskFull = False\<rparr>) ''/h/a''
     = Some (File ''same'' 128) \<and>
   classify \<lparr>files = [(''/'', Directory 493), (''/h'', Directory 493),
                      (''/h/a'', File ''same'' 128)],
             workDir = ''/h'', umask = 18, diskFull = False\<rparr>
     ''/h/a.tmpl'' ''/h/a'' (Inr (bufWritten ''same''))
   = Inr (CREATE, [LogUnexpectedExisting EACCES])"
  by code_simp

text \<open>
  The comparison is \<open>reflect.DeepEqual\<close> on the two byte slices: when the template renders
  to nothing and the output file is empty, the rendered slice is \<open>nil\<close>, the one read from
  the file is empty, and the mode is \<open>MODIFY\<close> although the bytes are the same.
\<close>

lemma classify_empty_existing_empty:
  "outputPath \<noteq> [] \<Longrightarrow> lookup w outputPath = Inr (File [] m) \<Longrightarrow> readable m \<Longrightarrow>
   classify w scannedPath outputPath (Inr (bufWritten [])) = Inr (MODIFY, [])"
  by (simp add: classify_def classifyExisting_def getExisting_readable DeepEqual_def
      bufWritten_def)

text \<open>
  C1 (amended): a render error gives \<open>FAIL\<close> whatever the output path holds. After a good
  render the mode is \<open>CREATE\<close> when the output path does not exist, and also, with the
  error logged, when the existing output cannot be opened or read (a path through a file, a
  file without the read bit, a directory); \<open>MODIFY\<close> when the output file is read and its
  bytes differ from the rendered bytes; \<open>KEEP\<close> when it is read and its bytes are the
  rendered bytes and not empty; and \<open>KEEP\<close> only when the output file is read and its
  bytes are the rendered bytes.
\<close>

theorem classify_modes:
  "classify w scannedPath outputPath (Inl err) = Inr (FAIL, [LogExecuteFailed scannedPath err]) \<and>
   (outputPath \<noteq> [] \<and> lookup w outputPath = Inl ENOENT \<longrightarrow>
      classify w scannedPath outputPath (Inr (bufWritten rendered)) = Inr (CREATE, [])) \<and>
   (outputPath \<noteq> [] \<and> lookup w outputPath = Inl e \<and> e \<noteq> ENOENT \<longrightarrow>
      classify w scannedPath outputPath (Inr (bufWritten rendered))
        = Inr (CREATE, [LogUnexpectedExisting e])) \<and>
   (outputPath \<noteq> [] \<and> lookup w outputPath = Inr (File c m) \<and> \<not> readable m \<longrightarrow>
      classify w scannedPath outputPath (Inr (bufWritten rendered))
        = Inr (CREATE, [LogUnexpectedExisting EACCES])) \<and>
   (outputPath \<noteq> [] \<and> lookup w outputPath = Inr (Directory dm) \<longrightarrow>
      classify w scannedPath outputPath (Inr (bufWritten rendered))
        = Inr (CREATE, [LogUnexpectedExisting EISDIR])) \<and>
   (outputPath \<noteq> [] \<and> lookup w outputPath = Inr (File c m) \<and> readable m \<and> c \<noteq> rendered \<longrightarrow>
      classify w scannedPath outputPath (Inr (bufWritten rendered)) = Inr (MODIFY, [])) \<and>
   (outputPath \<noteq> [] \<and> lookup w outputPath = Inr (File c m) \<and> readable m \<and> c = rendered
      \<and> rendered \<noteq> [] \<longrightarrow>
      classify w scannedPath outputPath (Inr (bufWritten rendered)) = Inr (KEEP, [])) \<and>
   (classify w scannedPath outputPath (Inr (bufWritten rendered)) = Inr (KEEP, ev) \<longrightarrow>
      (\<exists>m'. lookup w outputPath = Inr (File rendered m') \<and> readable m'))"
proof -
  have ne: "c \<noteq> rendered \<Longrightarrow> \<not> DeepEqual (bufWritten rendered) (Some c)" for c
    by (auto simp: DeepEqual_def bufWritten_def)
  have eq: "rendered \<noteq> [] \<Longrightarrow> DeepEqual (bufWritten rendered) (Some rendered)"
    by (simp add: DeepEqual_def bufWritten_def)
  have keep: "\<exists>m'. lookup w outputPath = Inr (File rendered m') \<and> readable m'"
    if k: "classify w scannedPath outputPath (Inr (bufWritten rendered)) = Inr (KEEP, ev)"
  proof -
    have op: "outputPath \<noteq> []"
      using k by (auto simp: classify_def getExistingOutputFileContents_def)
    show ?thesis
    proof (cases "lookup w outputPath")
      case (Inl e')
      then show ?thesis
        using k op by (simp add: classify_def classifyExisting_def getExisting_missing)
    next
      case (Inr nd)
      show ?thesis
      proof (cases nd)
        case (Directory dm')
        then show ?thesis
          using k op Inr by (simp add: classify_def classifyExisting_def getExisting_directory)
      next
        case (File c' m')
        show ?thesis
        proof (cases "readable m'")
          case False
          then show ?thesis
            using k op Inr File
            by (simp add: classify_def classifyExisting_def getExisting_unreadable)
        next
          case True
          have "c' = rendered"
            using k op Inr File True ne[of c']
            by (auto simp: classify_def classifyExisting_def getExisting_readable
                split: if_splits)
          then show ?thesis using Inr File True by simp
        qed
      qed
    qed
  qed
  show ?thesis
    using ne[of c] eq keep
    by (auto simp: classify_def classifyExisting_def getExisting_missing getExisting_readable
        getExisting_unreadable getExisting_directory IsNotExist_def)
qed

theorem classify_modes_witness:
  "classify \<lparr>files = [(''/'', Directory 493), (''/h'', Directory 493),
                      (''/h/a'', File ''old'' 420), (''/h/s'', File ''new'' 128)],
             workDir = ''/h'', umask = 18, diskFull = False\<rparr>
       ''/h/b.tmpl'' ''/h/b'' (Inr (bufWritten ''new''))
     = Inr (CREATE, []) \<and>
   classify \<lparr>files = [(''/'', Directory 493), (''/h'', Directory 493),
                      (''/h/a'', File ''old'' 420), (''/h/s'', File ''new'' 128)],
             workDir = ''/h'', umask = 18, diskFull = False\<rparr>
       ''/h/a/c.tmpl'' ''/h/a/c'' (Inr (bufWritten ''new''))
     = Inr (CREATE, [LogUnexpectedExisting ENOTDIR]) \<and>
   classify \<lparr>files = [(''/'', Directory 493), (''/h'', Directory 493),
                      (''/h/a'', File ''old'' 420), (''/h/s'', File ''new'' 128)],
             workDir = ''/h'', umask = 18, diskFull = False\<rparr>
       ''/h/s.tmpl'' ''/h/s'' (Inr (bufWritten ''new''))
     = Inr (CREATE, [LogUnexpectedExisting EACCES]) \<and>
   classify \<lparr>files = [(''/'', Directory 493), (''/h'', Directory 493),
                      (''/h/a'', File ''old'' 420), (''/h/s'', File ''new'' 128)],
             workDir = ''/h'', umask = 18, diskFull = False\<rparr>
       ''/h.tmpl'' ''/h'' (Inr (bufWritten ''new''))
     = Inr (CREATE, [LogUnexpectedExisting EISDIR]) \<and>
   classify \<lparr>files = [(''/'', Directory 493), (''/h'', Directory 493),
                      (''/h/a'', File ''old'' 420), (''/h/s'', File ''new'' 128)],
             workDir = ''/h'', umask = 18, diskFull = False\<rparr>
       ''/h/a.tmpl'' ''/h/a'' (Inr (bufWritten ''new''))
     = Inr (MODIFY, []) \<and>
   classify \<lparr>files = [(''/'', Directory 493), (''/h'', Directory 493),
                      (''/h/a'', File ''old'' 420), (''/h/s'', File ''new'' 128)],
             workDir = ''/h'', umask = 18, diskFull = False\<rparr>
       ''/h/a.tmpl'' ''/h/a'' (Inr (bufWritten ''old''))
     = Inr (KEEP, []) \<and>
   lookup \<lparr>files = [(''/'', Directory 493), (''/h'', Directory 493),
                    (''/h/a'', File ''old'' 420), (''/h/s'', File ''new'' 128)],
           workDir = ''/h'', umask = 18, diskFull = False\<rparr> ''/h/a''
     = Inr (File ''old'' 420)"
proof -
  let ?w = "\<lparr>files = [(''/'', Directory 493), (''/h'', Directory 493),
                      (''/h/a'', File ''old'' 420), (''/h/s'', File ''new'' 128)],
             workDir = ''/h'', umask = 18, diskFull = False\<rparr>"
  have l1: "lookup ?w ''/h/b'' = Inl ENOENT" by code_simp
  have l2: "lookup ?w ''/h/a'' = Inr (File ''old'' 420)" by code_simp
  have l3: "lookup ?w ''/h/a/c'' = Inl ENOTDIR" by code_simp
  have l4: "lookup ?w ''/h/s'' = Inr (File ''new'' 128)" by code_simp
  have l5: "lookup ?w ''/h'' = Inr (Directory 493)" by code_simp
  have r: "readable 420" "\<not> readable 128" by code_simp+
  have a: "classify ?w ''/h/b.tmpl'' ''/h/b'' (Inr (bufWritten ''new'')) = Inr (CREATE, [])"
    using classify_modes[of ?w "''/h/b.tmpl''" "''/h/b''" "TemplateFailed []" "''new''"
        ENOTDIR "''old''" 420 493 "[]"] l1
    by simp
  have b: "classify ?w ''/h/a/c.tmpl'' ''/h/a/c'' (Inr (bufWritten ''new''))
      = Inr (CREATE, [LogUnexpectedExisting ENOTDIR])"
    using classify_modes[of ?w "''/h/a/c.tmpl''" "''/h/a/c''" "TemplateFailed []" "''new''"
        ENOTDIR "''old''" 420 493 "[]"] l3
    by simp
  have c: "classify ?w ''/h/s.tmpl'' ''/h/s'' (Inr (bufWritten ''new''))
      = Inr (CREATE, [LogUnexpectedExisting EACCES])"
    using classify_modes[of ?w "''/h/s.tmpl''" "''/h/s''" "TemplateFailed []" "''new''"
        ENOTDIR "''new''" 128 493 "[]"] l4 r
    by simp
  have d: "classify ?w ''/h.tmpl'' ''/h'' (Inr (bufWritten ''new''))
      = Inr (CREATE, [LogUnexpectedExisting EISDIR])"
    using classify_modes[of ?w "''/h.tmpl''" "''/h''" "TemplateFailed []" "''new''"
        ENOTDIR "''old''" 420 493 "[]"] l5
    by simp
  have e: "classify ?w ''/h/a.tmpl'' ''/h/a'' (Inr (bufWritten ''new'')) = Inr (MODIFY, [])"
    using classify_modes[of ?w "''/h/a.tmpl''" "''/h/a''" "TemplateFailed []" "''new''"
        ENOTDIR "''old''" 420 493 "[]"] l2 r
    by simp
  have f: "classify ?w ''/h/a.tmpl'' ''/h/a'' (Inr (bufWritten ''old'')) = Inr (KEEP, [])"
    using classify_modes[of ?w "''/h/a.tmpl''" "''/h/a''" "TemplateFailed []" "''old''"
        ENOTDIR "''old''" 420 493 "[]"] l2 r
    by simp
  have "\<exists>m'. lookup ?w ''/h/a'' = Inr (File ''old'' m') \<and> readable m'"
    using classify_modes[of ?w "''/h/a.tmpl''" "''/h/a''" "TemplateFailed []" "''old''"
        ENOTDIR "''old''" 420 493 "[]"] f
    by blast
  then have g: "lookup ?w ''/h/a'' = Inr (File ''old'' 420)" using l2 by simp
  show ?thesis using a b c d e f g by simp
qed

text \<open>
  C8: when reading the existing output file fails with any error other than "does not
  exist", the error is logged and the mode is \<open>CREATE\<close>; the mode \<open>FAIL\<close> comes out of the
  classification only for a render error.
\<close>

theorem classify_other_error_creates:
  "(outputPath \<noteq> [] \<and> getExistingOutputFileContents w outputPath = Inr (Inl e) \<and> \<not> IsNotExist e
      \<longrightarrow> classify w scannedPath outputPath (Inr b) = Inr (CREATE, [LogUnexpectedExisting e])) \<and>
   (classify w scannedPath outputPath rendered = Inr (FAIL, ev) \<longrightarrow> (\<exists>err. rendered = Inl err))"
  by (auto simp: classify_def classifyExisting_def split: sum.splits if_splits)

theorem classify_other_error_creates_witness:
  "classify \<lparr>files = [(''/'', Directory 493), (''/h'', Directory 493), (''/h/a'', Directory 493)],
             workDir = ''/h'', umask = 18, diskFull = False\<rparr>
       ''/h/a.tmpl'' ''/h/a'' (Inr (Some ''new''))
     = Inr (CREATE, [LogUnexpectedExisting EISDIR]) \<and>
   classify \<lparr>files = [(''/'', Directory 493), (''/h'', Directory 493), (''/h/a'', Directory 493)],
             workDir = ''/h'', umask = 18, diskFull = False\<rparr> ''/h/a.tmpl'' ''/h/a''
       (Inl (TemplateFailed ''unexpected EOF''))
     = Inr (FAIL, [LogExecuteFailed ''/h/a.tmpl'' (TemplateFailed ''unexpected EOF'')]) \<and>
   (\<exists>err. (Inl (TemplateFailed ''unexpected EOF'') :: render_error + byteSlice) = Inl err)"
proof -
  let ?w = "\<lparr>files = [(''/'', Directory 493), (''/h'', Directory 493), (''/h/a'', Directory 493)],
             workDir = ''/h'', umask = 18, diskFull = False\<rparr>"
  let ?r = "Inl (TemplateFailed ''unexpected EOF'') :: render_error + byteSlice"
  have g: "getExistingOutputFileContents ?w ''/h/a'' = Inr (Inl EISDIR)" by code_simp
  have n: "\<not> IsNotExist EISDIR" by (simp add: IsNotExist_def)
  have b: "classify ?w ''/h/a.tmpl'' ''/h/a'' ?r
     = Inr (FAIL, [LogExecuteFailed ''/h/a.tmpl'' (TemplateFailed ''unexpected EOF'')])"
    by code_simp
  have a: "classify ?w ''/h/a.tmpl'' ''/h/a'' (Inr (Some ''new''))
      = Inr (CREATE, [LogUnexpectedExisting EISDIR])"
    using classify_other_error_creates[of "''/h/a''" ?w EISDIR "''/h/a.tmpl''" "Some ''new''"] g n
    by simp
  have c: "\<exists>err. ?r = Inl err"
    using classify_other_error_creates[of "''/h/a''" ?w EISDIR "''/h/a.tmpl''" "Some ''new''" ?r
        "[LogExecuteFailed ''/h/a.tmpl'' (TemplateFailed ''unexpected EOF'')]"] b
    by blast
  show ?thesis using a b c by blast
qed

section \<open>The file system\<close>

lemma resolve_files [simp]: "resolve (w\<lparr>files := x\<rparr>) p = resolve w p"
  by (simp add: resolve_def)

lemma resolve_clean_abs:
  assumes "IsAbs (workDir w)"
  shows "IsAbs (resolve w p) \<and> Clean (resolve w p) = resolve w p"
proof (cases "IsAbs p")
  case True
  then show ?thesis using Clean_idem_abs[OF True] by (simp add: resolve_def)
next
  case False
  have "workDir w \<noteq> []" "IsAbs (workDir w @ ''/'' @ p)"
    using assms by (auto simp: IsAbs_def split: list.splits)
  then show ?thesis
    using False Clean_idem_abs[of "workDir w @ ''/'' @ p"] by (simp add: resolve_def Join_def)
qed

lemma resolve_abs: "IsAbs p \<Longrightarrow> Clean p = p \<Longrightarrow> resolve w p = p"
  by (simp add: resolve_def)

lemma ancestors_not_self:
  assumes "IsAbs p" "Clean p = p"
  shows "p \<notin> set (ancestors p)"
proof
  assume mem: "p \<in> set (ancestors p)"
  from Clean_rooted_form[OF assms(1)] assms(2) obtain es where
    es: "\<forall>x\<in>set es. normalElem x" "p = CHR ''/'' # joinSlash es" by auto
  from mem obtain xs where xs: "xs \<in> set (butlast (prefixes es))"
    "p = CHR ''/'' # joinSlash xs"
    using ancestors_rooted[OF es(1)] es(2) by auto
  have "es \<noteq> []" using xs(1) by auto
  then obtain bs l where bl: "es = bs @ [l]" by (cases es rule: rev_cases) auto
  then have pre: "prefix xs bs" using xs(1) by (simp add: in_set_prefixes)
  then have nx: "\<forall>x\<in>set xs. normalElem x" using es(1) bl by (auto simp: prefix_def)
  have "filter (\<lambda>e. e \<noteq> []) (elems (CHR ''/'' # joinSlash xs)) = xs" using elems_rooted[OF nx] .
  moreover have "filter (\<lambda>e. e \<noteq> []) (elems (CHR ''/'' # joinSlash es)) = es"
    using elems_rooted[OF es(1)] .
  ultimately have "xs = es" using xs(2) es(2) by simp
  then have "length es \<le> length bs" using pre by (simp add: prefix_length_le)
  then show False using bl by simp
qed

text \<open>What \<open>mkdirs\<close> leaves behind when no file is in the way.\<close>

lemma mkdirs_result:
  "\<forall>d\<in>set ds. \<not> isFile w d \<Longrightarrow>
   \<exists>w'. mkdirs w ds = Inr w' \<and> workDir w' = workDir w \<and> umask w' = umask w \<and>
        diskFull w' = diskFull w \<and>
        (\<forall>q. map_of (files w') q =
           (if q \<in> set ds \<and> map_of (files w) q = None
            then Some (Directory (511 AND NOT (umask w))) else map_of (files w) q))"
proof (induction ds arbitrary: w)
  case Nil
  then show ?case by simp
next
  case (Cons d ds)
  show ?case
  proof (cases "map_of (files w) d")
    case None
    let ?w1 = "w\<lparr>files := AList.update d (Directory (511 AND NOT (umask w))) (files w)\<rparr>"
    have nf: "\<forall>x\<in>set ds. \<not> isFile ?w1 x"
      using Cons.prems by (auto simp: isFile_def update_conv')
    from Cons.IH[OF nf] obtain w' where
      w': "mkdirs ?w1 ds = Inr w'" "workDir w' = workDir ?w1" "umask w' = umask ?w1"
        "diskFull w' = diskFull ?w1"
        "\<forall>q. map_of (files w') q =
           (if q \<in> set ds \<and> map_of (files ?w1) q = None
            then Some (Directory (511 AND NOT (umask ?w1))) else map_of (files ?w1) q)"
      by blast
    have "mkdirs w (d # ds) = Inr w'" using None w'(1) by simp
    moreover have "\<forall>q. map_of (files w') q =
           (if q \<in> set (d # ds) \<and> map_of (files w) q = None
            then Some (Directory (511 AND NOT (umask w))) else map_of (files w) q)"
      using w'(5) None by (auto simp: update_conv')
    ultimately show ?thesis using w'(2,3,4) by simp
  next
    case (Some n)
    then obtain m where n: "n = Directory m"
      using Cons.prems by (cases n) (auto simp: isFile_def)
    have nf: "\<forall>x\<in>set ds. \<not> isFile w x" using Cons.prems by simp
    from Cons.IH[OF nf] obtain w' where
      w': "mkdirs w ds = Inr w'" "workDir w' = workDir w" "umask w' = umask w"
        "diskFull w' = diskFull w"
        "\<forall>q. map_of (files w') q =
           (if q \<in> set ds \<and> map_of (files w) q = None
            then Some (Directory (511 AND NOT (umask w))) else map_of (files w) q)"
      by blast
    have "mkdirs w (d # ds) = Inr w'" using Some n w'(1) by simp
    moreover have "\<forall>q. map_of (files w') q =
           (if q \<in> set (d # ds) \<and> map_of (files w) q = None
            then Some (Directory (511 AND NOT (umask w))) else map_of (files w) q)"
      using w'(5) Some by auto
    ultimately show ?thesis using w'(2,3,4) by simp
  qed
qed


lemma resolve_cong: "workDir w' = workDir w \<Longrightarrow> resolve w' p = resolve w p"
  by (simp add: resolve_def)

lemma lookup_plain:
  "\<forall>a\<in>set (ancestors (resolve w p)). \<not> isFile w a \<Longrightarrow>
   lookup w p = (case map_of (files w) (resolve w p) of None \<Rightarrow> Inl ENOENT | Some n \<Rightarrow> Inr n)"
  by (simp add: lookup_def list_ex_iff)

text \<open>
  \<open>createOutputFile\<close> where no file is in the way and the path is not a directory: the
  missing directories above the path are made, and the path holds a new empty file.
\<close>

lemma createOutputFile_result:
  assumes wd: "IsAbs (workDir w)"
    and root: "isDir w ''/''"
    and dirp: "resolve w (Dir p) = Dir (resolve w p)"
    and nofile: "\<forall>a\<in>set (ancestors (resolve w p)). \<not> isFile w a"
    and notdir: "\<not> isDir w (resolve w p)"
  shows "\<exists>w'. createOutputFile w p = (Inr (FileWriter (resolve w p)), w') \<and>
      workDir w' = workDir w \<and> umask w' = umask w \<and> diskFull w' = diskFull w \<and>
      (\<forall>q. map_of (files w') q =
         (if q = resolve w p then Some (File [] (438 AND NOT (umask w)))
          else if q \<in> set (ancestors (resolve w p)) \<and> map_of (files w) q = None
               then Some (Directory (511 AND NOT (umask w)))
               else map_of (files w) q))"
proof -
  let ?rp = "resolve w p"
  have ab: "IsAbs ?rp" "Clean ?rp = ?rp" using resolve_clean_abs[OF wd] by simp_all
  have nr: "?rp \<noteq> ''/''" using root notdir by auto
  have notself: "?rp \<notin> set (ancestors ?rp)" using ancestors_not_self[OF ab] .
  have par: "ancestors (Dir ?rp) @ [Clean (Dir ?rp)] = ancestors ?rp"
    "Dir ?rp \<in> set (ancestors ?rp)"
    using clean_abs_parents[OF ab nr] by simp_all
  have cdir: "Clean (Dir ?rp) = Dir ?rp" using Dir_clean_abs[OF ab(1)] by simp
  let ?w1 = "snd (os_Remove w p)"
  have lk: "lookup w p = (case map_of (files w) ?rp of None \<Rightarrow> Inl ENOENT | Some n \<Rightarrow> Inr n)"
    using lookup_plain[OF nofile] .
  have rm: "workDir ?w1 = workDir w \<and> umask ?w1 = umask w \<and> diskFull ?w1 = diskFull w \<and>
      (\<forall>q. map_of (files ?w1) q = (if q = ?rp then None else map_of (files w) q))"
  proof (cases "map_of (files w) ?rp")
    case None
    then show ?thesis using lk by (auto simp: os_Remove_def)
  next
    case (Some n)
    then obtain c m where n: "n = File c m" using notdir by (cases n) (auto simp: isDir_def)
    show ?thesis using lk Some n by (auto simp: os_Remove_def delete_conv')
  qed
  have res1: "\<And>x. resolve ?w1 x = resolve w x" using rm resolve_cong by blast
  have nf1: "\<forall>a\<in>set (ancestors ?rp). \<not> isFile ?w1 a"
    using nofile rm notself by (auto simp: isFile_def)
  from mkdirs_result[OF nf1] obtain w2 where
    w2: "mkdirs ?w1 (ancestors ?rp) = Inr w2" "workDir w2 = workDir ?w1" "umask w2 = umask ?w1"
      "diskFull w2 = diskFull ?w1"
      "\<forall>q. map_of (files w2) q =
         (if q \<in> set (ancestors ?rp) \<and> map_of (files ?w1) q = None
          then Some (Directory (511 AND NOT (umask ?w1))) else map_of (files ?w1) q)"
    by blast
  have mk: "os_MkdirAll ?w1 (Dir p) = Inr w2"
    unfolding os_MkdirAll_def res1 dirp using par(1) cdir w2(1) by simp
  have res2: "\<And>x. resolve w2 x = resolve w x" using w2(2) rm resolve_cong by metis
  have nf2: "\<forall>a\<in>set (ancestors ?rp). \<not> isFile w2 a"
    using nf1 w2(5) by (auto simp: isFile_def split: option.splits node.splits)
  have none2: "map_of (files w2) ?rp = None" using w2(5) rm notself by simp
  have lk2: "lookup w2 p = Inl ENOENT"
    using nf2 none2 by (simp add: lookup_def res2 list_ex_iff)
  have "\<not> isFile ?w1 (Dir ?rp)" using nf1 par(2) by blast
  then have pd: "isDir w2 (Dir ?rp)"
    using w2(5) par(2) by (auto simp: isDir_def isFile_def split: option.splits node.splits)
  let ?w3 = "w2\<lparr>files := AList.update ?rp (File [] (438 AND NOT (umask w2))) (files w2)\<rparr>"
  have cr: "os_Create w2 p = (Inr ?rp, ?w3)"
    using lk2 pd by (simp add: os_Create_def res2)
  have co: "createOutputFile w p = (Inr (FileWriter ?rp), ?w3)"
    unfolding createOutputFile_def Let_def mk using cr by simp
  have um: "umask w2 = umask w" using w2(3) rm by simp
  have "\<forall>q. map_of (files ?w3) q =
         (if q = ?rp then Some (File [] (438 AND NOT (umask w)))
          else if q \<in> set (ancestors ?rp) \<and> map_of (files w) q = None
               then Some (Directory (511 AND NOT (umask w)))
               else map_of (files w) q)"
    using w2(5) rm um by (auto simp: update_conv')
  moreover have "workDir ?w3 = workDir w" "umask ?w3 = umask w" "diskFull ?w3 = diskFull w"
    using w2(2,3,4) rm by simp_all
  ultimately show ?thesis using co by blast
qed

text \<open>The copy into a file that was just created, and the read-only mark.\<close>

lemma copyAndMark_file:
  assumes fl: "map_of (files w) rp = Some (File [] m0)"
    and full: "\<not> diskFull w"
    and res: "resolve w p = rp"
    and nofile: "\<forall>a\<in>set (ancestors rp). \<not> isFile w a"
  shows "\<exists>w3. copyAndMark f w (FileWriter rp) b m p = (m, [], w3) \<and>
      workDir w3 = workDir w \<and> umask w3 = umask w \<and> diskFull w3 = diskFull w \<and>
      (\<forall>q. map_of (files w3) q =
         (if q = rp then Some (File b (if readOnly f then 292 else m0))
          else map_of (files w) q))"
proof -
  let ?w2 = "if b = [] then w else w\<lparr>files := AList.update rp (File b m0) (files w)\<rparr>"
  have wt: "writeTo w (FileWriter rp) b = (None, ?w2)"
    using fl full by (simp add: writeTo_def)
  have m2: "\<forall>q. map_of (files ?w2) q = (if q = rp then Some (File b m0) else map_of (files w) q)"
    using fl by (auto simp: update_conv')
  have notself: "rp \<notin> set (ancestors rp)"
    using nofile fl by (auto simp: isFile_def)
  have nf2: "\<forall>a\<in>set (ancestors rp). \<not> isFile ?w2 a"
    using nofile notself by (auto simp: isFile_def update_conv')
  have r2: "resolve ?w2 p = rp" using res resolve_cong[of ?w2 w p] by simp
  have lk: "lookup ?w2 p = Inr (File b m0)"
    unfolding lookup_def r2 using nf2 m2 by (simp add: list_ex_iff)
  have ch: "markFileReadOnly ?w2 p
      = (None, ?w2\<lparr>files := AList.update rp (File b 292) (files ?w2)\<rparr>)"
    unfolding markFileReadOnly_def os_Chmod_def lk r2 by simp
  show ?thesis
  proof (cases "readOnly f")
    case True
    let ?w3 = "?w2\<lparr>files := AList.update rp (File b 292) (files ?w2)\<rparr>"
    have "copyAndMark f w (FileWriter rp) b m p = (m, [], ?w3)"
      unfolding copyAndMark_def wt using True ch by simp
    moreover have "\<forall>q. map_of (files ?w3) q =
        (if q = rp then Some (File b (if readOnly f then 292 else m0)) else map_of (files w) q)"
      using m2 True by (auto simp: update_conv')
    moreover have "workDir ?w3 = workDir w" "umask ?w3 = umask w" "diskFull ?w3 = diskFull w"
      by simp_all
    ultimately show ?thesis by blast
  next
    case False
    have "copyAndMark f w (FileWriter rp) b m p = (m, [], ?w2)"
      unfolding copyAndMark_def wt using False by simp
    moreover have "\<forall>q. map_of (files ?w2) q =
        (if q = rp then Some (File b (if readOnly f then 292 else m0)) else map_of (files w) q)"
      using m2 False by simp
    moreover have "workDir ?w2 = workDir w" "umask ?w2 = umask w" "diskFull ?w2 = diskFull w"
      by simp_all
    ultimately show ?thesis by blast
  qed
qed

text \<open>
  A scan entry whose write goes ahead, with no file in the way of the output path and room
  on the disk: the output file ends up holding the rendered bytes, the directories above it
  exist, nothing else changes, and the status line carries the mode of the classification.
\<close>

lemma scanEntry_writes:
  assumes wd: "IsAbs (workDir w)" and root: "isDir w ''/''"
    and entry: "\<not> (isDir w (resolve w p) \<and> Base p = ''.templater'')"
      "MatchString templRegEx (Base p)" "IsAbs p"
    and conv: "convertOutputPath (Some (workDir w)) f p = Inr outputPath"
    and opn: "os_Open w p = Inr r"
    and ex: "executeTemplate tmpl ts r = (Inr bs, ts')"
    and cls: "classify w p outputPath (Inr bs) = Inr (m, ev)"
    and m: "m = MODIFY \<or> m = CREATE"
    and gate: "promptAndCreateOutputFile f answer w outputPath
                 = (ev2, liftCreate (createOutputFile w outputPath))"
    and nofile: "\<forall>a\<in>set (ancestors outputPath). \<not> isFile w a"
    and notdir: "\<not> isDir w outputPath"
    and full: "\<not> diskFull w"
  shows "\<exists>w'. scanEntry f tmpl ts answer w p None
           = Inr (WalkContinue, ev @ ev2 @ [statusLine f m p outputPath], w', ts') \<and>
         (\<forall>q. map_of (files w') q =
            (if q = outputPath
             then Some (File (sliceBytes bs) (if readOnly f then 292 else 438 AND NOT (umask w)))
             else if q \<in> set (ancestors outputPath) \<and> map_of (files w) q = None
                  then Some (Directory (511 AND NOT (umask w)))
                  else map_of (files w) q))"
proof -
  have pne: "p \<noteq> []" using entry(3) by (auto simp: IsAbs_def)
  have one: "outputPath \<noteq> []" using convertOutputPath_nonempty[OF pne conv] .
  have oab: "IsAbs outputPath" "Clean outputPath = outputPath"
    using convertOutputPath_clean_abs[OF wd pne conv] by simp_all
  have rs: "resolve w outputPath = outputPath" using resolve_abs[OF oab] .
  have dirp: "resolve w (Dir outputPath) = Dir (resolve w outputPath)"
    using Dir_clean_abs[OF oab(1)] rs by (simp add: resolve_def)
  from createOutputFile_result[OF wd root dirp] nofile notdir rs obtain w1 where
    w1: "createOutputFile w outputPath = (Inr (FileWriter outputPath), w1)"
      "workDir w1 = workDir w" "umask w1 = umask w" "diskFull w1 = diskFull w"
      "\<forall>q. map_of (files w1) q =
         (if q = outputPath then Some (File [] (438 AND NOT (umask w)))
          else if q \<in> set (ancestors outputPath) \<and> map_of (files w) q = None
               then Some (Directory (511 AND NOT (umask w)))
               else map_of (files w) q)"
    by auto
  have ow: "outputWriter f answer w outputPath = Inr (ev2, Inr (FileWriter outputPath), w1)"
    using one gate w1(1) by (simp add: outputWriter_def liftCreate_def)
  have notself: "outputPath \<notin> set (ancestors outputPath)" using ancestors_not_self[OF oab] .
  have nf1: "\<forall>a\<in>set (ancestors outputPath). \<not> isFile w1 a"
    using nofile w1(5) notself by (auto simp: isFile_def)
  have fl1: "map_of (files w1) outputPath = Some (File [] (438 AND NOT (umask w)))"
    using w1(5) by simp
  have rs1: "resolve w1 outputPath = outputPath" using rs w1(2) resolve_cong by metis
  from copyAndMark_file[OF fl1 _ rs1 nf1, of f "sliceBytes bs" m] full w1(4) obtain w3 where
    w3: "copyAndMark f w1 (FileWriter outputPath) (sliceBytes bs) m outputPath = (m, [], w3)"
      "\<forall>q. map_of (files w3) q =
         (if q = outputPath
          then Some (File (sliceBytes bs) (if readOnly f then 292 else 438 AND NOT (umask w)))
          else map_of (files w1) q)"
    by auto
  have "scanEntry f tmpl ts answer w p None
      = Inr (WalkContinue, ev @ ev2 @ [statusLine f m p outputPath], w3, ts')"
    using entry conv opn ex cls m ow w3(1) by (auto simp: scanEntry_def Let_def)
  moreover have "\<forall>q. map_of (files w3) q =
            (if q = outputPath
             then Some (File (sliceBytes bs) (if readOnly f then 292 else 438 AND NOT (umask w)))
             else if q \<in> set (ancestors outputPath) \<and> map_of (files w) q = None
                  then Some (Directory (511 AND NOT (umask w)))
                  else map_of (files w) q)"
    using w3(2) w1(5) by simp
  ultimately show ?thesis by blast
qed

section \<open>The prompt\<close>

lemma of_char_asciiLower:
  "(of_char (asciiLower c) :: nat) =
     (if 65 \<le> (of_char c :: nat) \<and> (of_char c :: nat) \<le> 90 then of_char c + 32 else of_char c)"
  by (simp add: asciiLower_def)

lemma asciiLower_letter:
  assumes "(of_char l :: nat) = n" "97 \<le> n" "n \<le> 122" "(of_char u :: nat) = n - 32"
  shows "asciiLower c = l \<longleftrightarrow> c = l \<or> c = u"
proof -
  have "asciiLower c = l \<longleftrightarrow> (of_char (asciiLower c) :: nat) = of_char l"
    by (simp only: of_char_eq_iff)
  also have "\<dots> \<longleftrightarrow> (of_char c :: nat) = of_char l \<or> (of_char c :: nat) = of_char u"
    unfolding of_char_asciiLower using assms by auto
  finally show ?thesis by (simp only: of_char_eq_iff)
qed

lemma asciiLower_y: "asciiLower c = CHR ''y'' \<longleftrightarrow> c = CHR ''y'' \<or> c = CHR ''Y''"
  by (rule asciiLower_letter[where n = 121]) simp_all

lemma asciiLower_e: "asciiLower c = CHR ''e'' \<longleftrightarrow> c = CHR ''e'' \<or> c = CHR ''E''"
  by (rule asciiLower_letter[where n = 101]) simp_all

lemma asciiLower_s: "asciiLower c = CHR ''s'' \<longleftrightarrow> c = CHR ''s'' \<or> c = CHR ''S''"
  by (rule asciiLower_letter[where n = 115]) simp_all

lemma asciiLower_consts:
  "asciiLower CHR ''y'' = CHR ''y''" "asciiLower CHR ''e'' = CHR ''e''"
  "asciiLower CHR ''s'' = CHR ''s''"
  by (simp_all add: asciiLower_def)

lemma EqualFold_Nil: "EqualFold s [] \<longleftrightarrow> s = []"
  by (cases s) simp_all

lemma EqualFold_s_iff:
  "EqualFold t ''s'' \<longleftrightarrow> t = ''s'' \<or> t = ''S'' \<or> t = [CHR 0xC5, CHR 0xBF]"
proof (cases t)
  case Nil
  then show ?thesis by simp
next
  case (Cons c cs)
  show ?thesis
  proof (cases "(of_char c :: nat) < 128")
    case True
    then have "c \<noteq> CHR 0xC5" by auto
    then show ?thesis using Cons True
      by (auto simp: asciiLower_consts asciiLower_s EqualFold_Nil)
  next
    case False
    then have "c \<noteq> CHR ''s''" "c \<noteq> CHR ''S''" by auto
    then show ?thesis using Cons False
      by (cases cs) (auto simp: asciiLower_consts EqualFold_Nil)
  qed
qed


lemma EqualFold_Cons_y:
  "EqualFold (c # cs) (CHR ''y'' # ts) \<longleftrightarrow> (c = CHR ''y'' \<or> c = CHR ''Y'') \<and> EqualFold cs ts"
proof (cases "(of_char c :: nat) < 128")
  case True
  then show ?thesis by (simp add: asciiLower_consts asciiLower_y)
next
  case False
  then have "c \<noteq> CHR ''y''" "c \<noteq> CHR ''Y''" by auto
  then show ?thesis using False by (simp add: asciiLower_consts)
qed

lemma EqualFold_Cons_e:
  "EqualFold (c # cs) (CHR ''e'' # ts) \<longleftrightarrow> (c = CHR ''e'' \<or> c = CHR ''E'') \<and> EqualFold cs ts"
proof (cases "(of_char c :: nat) < 128")
  case True
  then show ?thesis by (simp add: asciiLower_consts asciiLower_e)
next
  case False
  then have "c \<noteq> CHR ''e''" "c \<noteq> CHR ''E''" by auto
  then show ?thesis using False by (simp add: asciiLower_consts)
qed

lemma EqualFold_y_iff: "EqualFold t ''y'' \<longleftrightarrow> t = ''y'' \<or> t = ''Y''"
  by (cases t) (auto simp: EqualFold_Cons_y EqualFold_Nil simp del: EqualFold.simps(4))

lemma EqualFold_yes_iff:
  "EqualFold t ''yes'' \<longleftrightarrow>
   (\<exists>a b r. t = a # b # r \<and> (a = CHR ''y'' \<or> a = CHR ''Y'') \<and> (b = CHR ''e'' \<or> b = CHR ''E'') \<and>
      (r = ''s'' \<or> r = ''S'' \<or> r = [CHR 0xC5, CHR 0xBF]))"
proof (cases t)
  case Nil
  then show ?thesis by simp
next
  case (Cons a t')
  show ?thesis
  proof (cases t')
    case Nil
    then show ?thesis using Cons by (simp add: EqualFold_Cons_y EqualFold_Nil del: EqualFold.simps(4))
  next
    case (Cons b r)
    then show ?thesis using \<open>t = a # t'\<close>
      by (simp add: EqualFold_Cons_y EqualFold_Cons_e EqualFold_s_iff del: EqualFold.simps(4))
  qed
qed


lemma saysYes_iff:
  "saysYes answer \<longleftrightarrow>
   (let t = TrimSpace answer in
      t = ''y'' \<or> t = ''Y'' \<or>
      (\<exists>a b r. t = a # b # r \<and> (a = CHR ''y'' \<or> a = CHR ''Y'') \<and> (b = CHR ''e'' \<or> b = CHR ''E'') \<and>
         (r = ''s'' \<or> r = ''S'' \<or> r = [CHR 0xC5, CHR 0xBF])))"
  unfolding saysYes_def Let_def EqualFold_y_iff EqualFold_yes_iff by blast

lemma yes_examples:
  "saysYes ''y''" "saysYes ''Y''" "saysYes ''yes''" "saysYes '' YES  ''"
  "saysYes [CHR ''y'', CHR ''e'', CHR ''s'', CHR 0x0A]"
  "\<not> saysYes ''n''" "\<not> saysYes []" "\<not> saysYes ''yess''" "\<not> saysYes ''ye''" "\<not> saysYes ''y e s''"
  by code_simp+

text \<open>
  C6: when the prompt is shown (a scan that is not a dry run, with \<open>-i\<close>, for an output
  path that holds a file), the answer decides. After \<open>y\<close> or \<open>yes\<close>, trimmed and
  compared with \<open>strings.EqualFold\<close>, the file is overwritten: with room on the disk the
  output file ends up holding the rendered bytes and the status line is printed after the
  prompt. Any other answer gives \<open>skipReplace\<close> and leaves the file system as it is; the
  scan then returns \<open>nil\<close> to the walk with nothing printed after the prompt: no log line
  and no status line.
\<close>

theorem prompt_answer_decides:
  assumes wd: "IsAbs (workDir w)" and root: "isDir w ''/''"
    and entry: "\<not> (isDir w (resolve w p) \<and> Base p = ''.templater'')"
      "MatchString templRegEx (Base p)" "IsAbs p"
    and conv: "convertOutputPath (Some (workDir w)) f p = Inr outputPath"
    and opn: "os_Open w p = Inr r"
    and ex: "executeTemplate tmpl ts r = (Inr bs, ts')"
    and cls: "classify w p outputPath (Inr bs) = Inr (m, ev)"
    and m: "m = MODIFY \<or> m = CREATE"
    and gate: "\<not> shouldDryRun f" "shouldPromptBeforeWrite f"
      "os_Stat w outputPath = Inr (File c mo)"
    and full: "\<not> diskFull w"
  shows "(EqualFold (TrimSpace answer) ''y'' \<or> EqualFold (TrimSpace answer) ''yes'' \<longrightarrow>
           (\<exists>w'. scanEntry f tmpl ts answer w p None
                   = Inr (WalkContinue,
                          ev @ [PromptReplace outputPath, statusLine f m p outputPath], w', ts') \<and>
                 (\<forall>q. map_of (files w') q =
                    (if q = outputPath
                     then Some (File (sliceBytes bs)
                                  (if readOnly f then 292 else 438 AND NOT (umask w)))
                     else if q \<in> set (ancestors outputPath) \<and> map_of (files w) q = None
                          then Some (Directory (511 AND NOT (umask w)))
                          else map_of (files w) q)))) \<and>
         (\<not> (EqualFold (TrimSpace answer) ''y'' \<or> EqualFold (TrimSpace answer) ''yes'') \<longrightarrow>
           promptAndCreateOutputFile f answer w outputPath
             = ([PromptReplace outputPath], Inl skipReplace, w) \<and>
           scanEntry f tmpl ts answer w p None
             = Inr (WalkContinue, ev @ [PromptReplace outputPath], w, ts'))"
proof -
  let ?yes = "EqualFold (TrimSpace answer) ''y'' \<or> EqualFold (TrimSpace answer) ''yes''"
  have sy: "saysYes answer = ?yes" by (simp add: saysYes_def Let_def)
  have g: "promptAndCreateOutputFile f answer w outputPath =
      (if ?yes then ([PromptReplace outputPath], liftCreate (createOutputFile w outputPath))
       else ([PromptReplace outputPath], Inl skipReplace, w))"
    using gate by (simp add: promptAndCreateOutputFile_def sy)
  have pne: "p \<noteq> []" using entry(3) by (auto simp: IsAbs_def)
  have one: "outputPath \<noteq> []" using convertOutputPath_nonempty[OF pne conv] .
  have oab: "IsAbs outputPath" "Clean outputPath = outputPath"
    using convertOutputPath_clean_abs[OF wd pne conv] by simp_all
  have rs: "resolve w outputPath = outputPath" using resolve_abs[OF oab] .
  have lk: "lookup w outputPath = Inr (File c mo)" using gate(3) by (simp add: os_Stat_def)
  have nofile: "\<forall>a\<in>set (ancestors outputPath). \<not> isFile w a"
    using lk rs by (auto simp: lookup_def list_ex_iff split: if_splits)
  have "map_of (files w) outputPath = Some (File c mo)"
    using lk rs by (auto simp: lookup_def split: if_splits option.splits)
  then have notdir: "\<not> isDir w outputPath" by (simp add: isDir_def)
  have yes: "\<exists>w'. scanEntry f tmpl ts answer w p None
                   = Inr (WalkContinue,
                          ev @ [PromptReplace outputPath, statusLine f m p outputPath], w', ts') \<and>
                 (\<forall>q. map_of (files w') q =
                    (if q = outputPath
                     then Some (File (sliceBytes bs)
                                  (if readOnly f then 292 else 438 AND NOT (umask w)))
                     else if q \<in> set (ancestors outputPath) \<and> map_of (files w) q = None
                          then Some (Directory (511 AND NOT (umask w)))
                          else map_of (files w) q))"
    if y: ?yes
  proof -
    have g': "promptAndCreateOutputFile f answer w outputPath
        = ([PromptReplace outputPath], liftCreate (createOutputFile w outputPath))"
      using g y by simp
    show ?thesis
      using scanEntry_writes[OF wd root entry conv opn ex cls m g' nofile notdir full] by simp
  qed
  have ow: "\<not> ?yes \<Longrightarrow> outputWriter f answer w outputPath
      = Inr ([PromptReplace outputPath], Inl skipReplace, w)"
    using g one by (simp add: outputWriter_def)
  have no: "\<not> ?yes \<Longrightarrow> scanEntry f tmpl ts answer w p None
      = Inr (WalkContinue, ev @ [PromptReplace outputPath], w, ts')"
    using entry conv opn ex cls m ow by (auto simp: scanEntry_def Let_def)
  show ?thesis using yes no g by simp
qed

theorem prompt_answer_decides_witness:
  "scanEntry (defaultFlags\<lparr>scan := True, interactive := True\<rparr>) (\<lambda>ts t. (Inr t, ts)) () '' Yes ''
     \<lparr>files = [(''/'', Directory 493), (''/h'', Directory 493), (''/h/a'', File ''old'' 420),
               (''/h/a.tmpl'', File ''new'' 420)],
      workDir = ''/h'', umask = 18, diskFull = False\<rparr> ''/h/a.tmpl'' None
   = Inr (WalkContinue, [PromptReplace ''/h/a'', StatusHuman MODIFY ''/h/a.tmpl'' ''/h/a''],
      \<lparr>files = [(''/'', Directory 493), (''/h'', Directory 493),
                (''/h/a.tmpl'', File ''new'' 420), (''/h/a'', File ''new'' 420)],
       workDir = ''/h'', umask = 18, diskFull = False\<rparr>, ()) \<and>
   map_of [(''/'', Directory 493), (''/h'', Directory 493),
           (''/h/a.tmpl'', File ''new'' 420), (''/h/a'', File ''new'' 420)] ''/h/a''
     = Some (File ''new'' 420) \<and>
   scanEntry (defaultFlags\<lparr>scan := True, interactive := True\<rparr>) (\<lambda>ts t. (Inr t, ts)) () ''no''
     \<lparr>files = [(''/'', Directory 493), (''/h'', Directory 493), (''/h/a'', File ''old'' 420),
               (''/h/a.tmpl'', File ''new'' 420)],
      workDir = ''/h'', umask = 18, diskFull = False\<rparr> ''/h/a.tmpl'' None
   = Inr (WalkContinue, [PromptReplace ''/h/a''],
      \<lparr>files = [(''/'', Directory 493), (''/h'', Directory 493), (''/h/a'', File ''old'' 420),
                (''/h/a.tmpl'', File ''new'' 420)],
       workDir = ''/h'', umask = 18, diskFull = False\<rparr>, ())"
proof -
  let ?w = "\<lparr>files = [(''/'', Directory 493), (''/h'', Directory 493), (''/h/a'', File ''old'' 420),
               (''/h/a.tmpl'', File ''new'' 420)],
      workDir = ''/h'', umask = 18, diskFull = False\<rparr>"
  let ?w1 = "\<lparr>files = [(''/'', Directory 493), (''/h'', Directory 493),
                (''/h/a.tmpl'', File ''new'' 420), (''/h/a'', File ''new'' 420)],
       workDir = ''/h'', umask = 18, diskFull = False\<rparr>"
  let ?f = "defaultFlags\<lparr>scan := True, interactive := True\<rparr>"
  let ?tm = "\<lambda>(ts::unit) (t::string). (Inr t :: string + string, ts)"
  have wd: "IsAbs (workDir ?w)" by code_simp
  have root: "isDir ?w ''/''" by code_simp
  have e1: "\<not> (isDir ?w (resolve ?w ''/h/a.tmpl'') \<and> Base ''/h/a.tmpl'' = ''.templater'')"
    by code_simp
  have e2: "MatchString templRegEx (Base ''/h/a.tmpl'')" by code_simp
  have e3: "IsAbs ''/h/a.tmpl''" by code_simp
  have conv: "convertOutputPath (Some (workDir ?w)) ?f ''/h/a.tmpl'' = Inr ''/h/a''" by code_simp
  have opn: "os_Open ?w ''/h/a.tmpl'' = Inr (File ''new'' 420)" by code_simp
  have ex: "executeTemplate ?tm () (File ''new'' 420) = (Inr (Some ''new''), ())" by code_simp
  have cls: "classify ?w ''/h/a.tmpl'' ''/h/a'' (Inr (Some ''new'')) = Inr (MODIFY, [])"
    by code_simp
  have m: "MODIFY = MODIFY \<or> MODIFY = CREATE" by simp
  have g1: "\<not> shouldDryRun ?f" by code_simp
  have g2: "shouldPromptBeforeWrite ?f" by code_simp
  have g3: "os_Stat ?w ''/h/a'' = Inr (File ''old'' 420)" by code_simp
  have full: "\<not> diskFull ?w" by simp
  have y: "EqualFold (TrimSpace '' Yes '') ''y'' \<or> EqualFold (TrimSpace '' Yes '') ''yes''"
    by code_simp
  have n: "\<not> (EqualFold (TrimSpace ''no'') ''y'' \<or> EqualFold (TrimSpace ''no'') ''yes'')"
    by code_simp
  note t = prompt_answer_decides[OF wd root e1 e2 e3 conv opn ex cls m g1 g2 g3 full]
  have run: "scanEntry ?f ?tm () '' Yes '' ?w ''/h/a.tmpl'' None
      = Inr (WalkContinue, [PromptReplace ''/h/a'', StatusHuman MODIFY ''/h/a.tmpl'' ''/h/a''],
             ?w1, ())"
    by code_simp
  from t[of "'' Yes ''"] y obtain w' where
    w': "scanEntry ?f ?tm () '' Yes '' ?w ''/h/a.tmpl'' None
           = Inr (WalkContinue,
                  [] @ [PromptReplace ''/h/a'', statusLine ?f MODIFY ''/h/a.tmpl'' ''/h/a''],
                  w', ())"
      "map_of (files w') ''/h/a''
         = Some (File (sliceBytes (Some ''new''))
                   (if readOnly ?f then 292 else 438 AND NOT (umask ?w)))"
    by auto
  have "w' = ?w1" using w'(1) run by simp
  then have held: "map_of (files ?w1) ''/h/a'' = Some (File ''new'' 420)"
    using w'(2) by (simp add: sliceBytes_def)
  have no: "scanEntry ?f ?tm () ''no'' ?w ''/h/a.tmpl'' None
      = Inr (WalkContinue, [PromptReplace ''/h/a''], ?w, ())"
    using t[of "''no''"] n by simp
  show ?thesis using run held no by simp
qed

section \<open>Dry run\<close>

text \<open>
  C7 (the code at the failing input): a dry run with \<open>-ro\<close> over a template whose output
  file exists with other contents. Nothing is written, but \<open>markFileReadOnly\<close> still
  runs: the mode of the output file goes from \<open>0644\<close> to \<open>0444\<close>.
\<close>

theorem dryRun_readOnly_chmod:
  "scanEntry (defaultFlags\<lparr>scan := True, dryRun := True, readOnly := True\<rparr>)
     (\<lambda>ts t. (Inr t, ts)) () []
     \<lparr>files = [(''/'', Directory 493), (''/h'', Directory 493), (''/h/a'', File ''old'' 420),
               (''/h/a.tmpl'', File ''new'' 420)],
      workDir = ''/h'', umask = 18, diskFull = False\<rparr> ''/h/a.tmpl'' None
   = Inr (WalkContinue, [StatusHuman MODIFY ''/h/a.tmpl'' ''/h/a''],
      \<lparr>files = [(''/'', Directory 493), (''/h'', Directory 493), (''/h/a'', File ''old'' 292),
                (''/h/a.tmpl'', File ''new'' 420)],
       workDir = ''/h'', umask = 18, diskFull = False\<rparr>, ())"
  by code_simp

text \<open>Without \<open>-ro\<close> a dry run leaves the file system as it is.\<close>

lemma dryRun_gate:
  "shouldDryRun f \<Longrightarrow> outputPath \<noteq> [] \<Longrightarrow>
   outputWriter f answer w outputPath = Inr ([], Inr Discard, w)"
  by (simp add: outputWriter_def promptAndCreateOutputFile_def)

lemma dryRun_copy:
  "\<not> readOnly f \<Longrightarrow> copyAndMark f w Discard b m outputPath = (m, [], w)"
  by (simp add: copyAndMark_def writeTo_def)

lemma dryRun_no_mutation:
  assumes "shouldDryRun f" "\<not> readOnly f"
    and "scanEntry f tmpl ts answer w p err = Inr (wk, ev, w', ts')"
  shows "w' = w"
proof (cases "err = None \<and> MatchString templRegEx (Base p) \<and> IsAbs p \<and>
    \<not> (isDir w (resolve w p) \<and> Base p = ''.templater'')")
  case False
  then show ?thesis using assms(3)
    by (auto simp: scanEntry_def split: if_splits option.splits walk_error.splits)
next
  case True
  then have pne: "p \<noteq> []" by (auto simp: IsAbs_def)
  from True assms(3) obtain outputPath
    where conv: "convertOutputPath (Some (workDir w)) f p = Inr outputPath"
    by (auto simp: scanEntry_def split: sum.splits)
  have one: "outputPath \<noteq> []" using convertOutputPath_nonempty[OF pne conv] .
  show ?thesis
    using assms(3) True conv dryRun_gate[OF assms(1) one] dryRun_copy[OF assms(2)]
    by (auto simp: scanEntry_def Let_def split: sum.splits if_splits prod.splits)
qed

text \<open>
  In a dry run without \<open>-ro\<close> the entry is classified and its status line printed, with
  the mode of the classification, and nothing else happens.
\<close>

lemma dryRun_status:
  assumes "shouldDryRun f" "\<not> readOnly f"
    and "\<not> (isDir w (resolve w p) \<and> Base p = ''.templater'')"
      "MatchString templRegEx (Base p)" "IsAbs p"
    and conv: "convertOutputPath (Some (workDir w)) f p = Inr outputPath"
    and opn: "os_Open w p = Inr r"
    and ex: "executeTemplate tmpl ts r = (rendered, ts')"
    and cls: "classify w p outputPath rendered = Inr (m, ev)"
  shows "scanEntry f tmpl ts answer w p None
    = Inr (WalkContinue, ev @ [statusLine f m p outputPath], w, ts')"
proof -
  have pne: "p \<noteq> []" using assms(5) by (auto simp: IsAbs_def)
  have one: "outputPath \<noteq> []" using convertOutputPath_nonempty[OF pne conv] .
  show ?thesis
    using assms(3-5) conv opn ex cls dryRun_gate[OF assms(1) one] dryRun_copy[OF assms(2)]
    by (auto simp: scanEntry_def Let_def)
qed

section \<open>Creating the output file\<close>









end
